(* ===== verification/Go_Prelude.thy ===== *)
theory Go_Prelude
  imports Main "HOL-Library.Word" "HOL-Library.List_Lexorder"
begin

text \<open>
  Shared vocabulary of the development: bytes and machine words, the ways a Go function
  can end, slice and index expressions with their run-time panics, and generic lemmas on
  lists. Go strings and Go byte slices are both sequences of bytes, so both are \<open>bytes\<close>.
  \<open>int\<close> and \<open>uint64\<close> are 64 bits wide (amd64, arm64). A slice whose capacity matters is
  given with its spare bytes where it is used; everywhere else the capacity is the length,
  as it is for the memory maps the program reads.
\<close>

unbundle bit_operations_syntax

type_synonym byte = "8 word"
type_synonym bytes = "byte list"
type_synonym u32 = "32 word"
type_synonym u64 = "64 word"

named_theorems go_defs "definitions of the Go vocabulary, to be unfolded in evaluation"

definition str :: "string \<Rightarrow> bytes" where
  "str s = map of_char s"

lemma length_str [simp]: "length (str s) = length s"
  by (simp add: str_def)

lemma str_eq_Nil [simp]: "str s = [] \<longleftrightarrow> s = []"
  by (simp add: str_def)

lemma str_append: "str (s @ t) = str s @ str t"
  by (simp add: str_def)

lemma of_char_byte_eq: "(of_char c :: byte) = of_char d \<longleftrightarrow> c = d"
proof
  assume "(of_char c :: byte) = of_char d"
  then have "unat (of_nat (of_char c) :: byte) = unat (of_nat (of_char d) :: byte)"
    by (simp only: of_nat_of_char)
  then have "(of_char c :: nat) mod 256 = of_char d mod 256"
    by (simp add: unsigned_of_nat take_bit_eq_mod)
  then show "c = d" by (simp only: of_char_mod_256 of_char_eq_iff)
qed simp

lemma str_eq_iff: "str s = str t \<longleftrightarrow> s = t"
  unfolding str_def by (rule inj_map_eq_map) (simp add: inj_on_def of_char_byte_eq)

section \<open>How a Go function ends\<close>

text \<open>
  A function returns a value, returns an \<open>error\<close>, panics, or ends the process:
  \<open>log.Fatal\<close> (exit status 1 after a message) and \<open>os.Exit\<close>. The constructors of
  \<open>go_error\<close> are the error values the sources build or pass on.
\<close>

datatype go_error =
    BadCpioHeader
  | InvalidCpioMagic
  | ParseSyntax
  | ParseRange
  | PathEndsWithSlash
  | UnknownEntryType
  | OsError
  | DecoderNotInitialized
  | CodecError
  | NotImplemented
  | BadPayload bytes

datatype go_panic =
    IndexOutOfRange
  | SliceOutOfRange
  | MakeOutOfRange
  | DivideByZero
  | NilDereference
  | PanicCall
  | MappingFault

datatype go_exit =
    Err go_error
  | Panic go_panic
  | Fatal
  | Exit int

type_synonym 'a go = "go_exit + 'a"

definition go_bind :: "'a go \<Rightarrow> ('a \<Rightarrow> 'b go) \<Rightarrow> 'b go" where
  "go_bind m f = (case m of Inl e \<Rightarrow> Inl e | Inr x \<Rightarrow> f x)"

lemma go_bind_simps [simp]:
  "go_bind (Inl e) f = Inl e"
  "go_bind (Inr x) f = f x"
  by (simp_all add: go_bind_def)

lemma go_bind_Inr_iff: "go_bind m f = Inr y \<longleftrightarrow> (\<exists>x. m = Inr x \<and> f x = Inr y)"
  by (cases m) simp_all

lemma go_bind_cong [fundef_cong]:
  "m = m' \<Longrightarrow> (\<And>x. m' = Inr x \<Longrightarrow> f x = g x) \<Longrightarrow> go_bind m f = go_bind m' g"
  by (cases m') simp_all

text \<open>A loop over a slice that stops at the first element it fails on.\<close>

fun go_map :: "('a \<Rightarrow> 'b go) \<Rightarrow> 'a list \<Rightarrow> 'b list go" where
  "go_map f [] = Inr []"
| "go_map f (x # xs) = go_bind (f x) (\<lambda>y. go_bind (go_map f xs) (\<lambda>ys. Inr (y # ys)))"

lemma go_map_Inr_iff: "go_map f xs = Inr ys \<longleftrightarrow> list_all2 (\<lambda>x y. f x = Inr y) xs ys"
  by (induction xs arbitrary: ys) (auto simp: go_bind_Inr_iff list_all2_Cons1)

lemma go_map_Inl: "go_map f xs = Inl e \<Longrightarrow> \<exists>x \<in> set xs. f x = Inl e"
proof (induction xs)
  case (Cons x xs)
  then show ?case by (cases "f x"; cases "go_map f xs") simp_all
qed simp

lemma go_map_total: "(\<exists>ys. go_map f xs = Inr ys) \<longleftrightarrow> (\<forall>x \<in> set xs. \<exists>y. f x = Inr y)"
proof (induction xs)
  case (Cons x xs)
  then show ?case by (cases "f x"; cases "go_map f xs") simp_all
qed simp

definition is_panic :: "'a go \<Rightarrow> bool" where
  "is_panic r \<longleftrightarrow> (case r of Inl (Panic _) \<Rightarrow> True | _ \<Rightarrow> False)"

lemma is_panic_simps [simp]:
  "is_panic (Inl (Panic p))" "\<not> is_panic (Inl (Err e))" "\<not> is_panic (Inl Fatal)"
  "\<not> is_panic (Inl (Exit n))" "\<not> is_panic (Inr x)"
  by (simp_all add: is_panic_def)

section \<open>Index and slice expressions\<close>

definition go_index :: "'a list \<Rightarrow> nat \<Rightarrow> 'a go" where
  "go_index xs i = (if i < length xs then Inr (xs ! i) else Inl (Panic IndexOutOfRange))"

definition go_slice :: "'a list \<Rightarrow> nat \<Rightarrow> nat \<Rightarrow> 'a list go" where
  "go_slice xs lo hi =
     (if lo \<le> hi \<and> hi \<le> length xs then Inr (take (hi - lo) (drop lo xs))
      else Inl (Panic SliceOutOfRange))"

lemma go_index_Inr_iff: "go_index xs i = Inr x \<longleftrightarrow> i < length xs \<and> x = xs ! i"
  by (auto simp: go_index_def)

lemma go_slice_Inr_iff:
  "go_slice xs lo hi = Inr ys \<longleftrightarrow> lo \<le> hi \<and> hi \<le> length xs \<and> ys = take (hi - lo) (drop lo xs)"
  by (auto simp: go_slice_def)

lemma go_slice_mid [simp]:
  "lo = length xs \<Longrightarrow> hi = length xs + length ys \<Longrightarrow> go_slice (xs @ ys @ zs) lo hi = Inr ys"
  by (simp add: go_slice_def)

lemma go_slice_end [simp]:
  "lo = length xs \<Longrightarrow> hi = length xs + length ys \<Longrightarrow> go_slice (xs @ ys) lo hi = Inr ys"
  by (simp add: go_slice_def)

lemma go_slice_at:
  "xs = a @ b @ c \<Longrightarrow> length a = lo \<Longrightarrow> length b = n \<Longrightarrow> go_slice xs lo (lo + n) = Inr b"
  by (auto simp: go_slice_def)

lemma unat_of_nat_small: "n < 2 ^ LENGTH('a) \<Longrightarrow> unat (of_nat n :: 'a::len word) = n"
  by (simp add: unsigned_of_nat take_bit_nat_eq_self)

section \<open>Prefixes, suffixes, trimming, searching\<close>

text \<open>
  \<open>strings.HasPrefix\<close>, \<open>strings.HasSuffix\<close>, \<open>strings.TrimPrefix\<close>, \<open>strings.TrimLeft\<close>,
  \<open>strings.TrimRight\<close> (with a cutset of ASCII bytes), \<open>bytes.Index\<close> and
  \<open>strings.Count\<close> for a separator of one byte, and the same functions of \<open>bytes\<close>.
\<close>

definition has_prefix :: "'a list \<Rightarrow> 'a list \<Rightarrow> bool" where
  "has_prefix s p \<longleftrightarrow> take (length p) s = p"

definition has_suffix :: "'a list \<Rightarrow> 'a list \<Rightarrow> bool" where
  "has_suffix s p \<longleftrightarrow> length p \<le> length s \<and> drop (length s - length p) s = p"

definition trim_prefix :: "'a list \<Rightarrow> 'a list \<Rightarrow> 'a list" where
  "trim_prefix s p = (if has_prefix s p then drop (length p) s else s)"

definition trim_left :: "'a list \<Rightarrow> 'a list \<Rightarrow> 'a list" where
  "trim_left s cs = dropWhile (\<lambda>c. c \<in> set cs) s"

definition trim_right :: "'a list \<Rightarrow> 'a list \<Rightarrow> 'a list" where
  "trim_right s cs = rev (dropWhile (\<lambda>c. c \<in> set cs) (rev s))"

fun index_of :: "'a list \<Rightarrow> 'a list \<Rightarrow> nat option" where
  "index_of [] p = (if p = [] then Some 0 else None)"
| "index_of (c # s) p =
     (if has_prefix (c # s) p then Some 0 else map_option Suc (index_of s p))"

lemma has_prefix_iff: "has_prefix s p \<longleftrightarrow> (\<exists>t. s = p @ t)"
  by (metis has_prefix_def append_take_drop_id append_eq_conv_conj)

lemma has_prefix_Nil [simp]: "has_prefix s []"
  by (simp add: has_prefix_def)

lemma has_prefix_append [simp]: "has_prefix (p @ t) p"
  by (simp add: has_prefix_iff)

lemma has_prefix_self [simp]: "has_prefix p p"
  by (simp add: has_prefix_def)

lemma has_prefix_Cons_iff [simp]:
  "has_prefix (c # s) (d # p) \<longleftrightarrow> c = d \<and> has_prefix s p"
  by (auto simp: has_prefix_def)

lemma has_prefix_Nil_iff [simp]: "has_prefix [] p \<longleftrightarrow> p = []"
  by (auto simp: has_prefix_def)

lemma has_prefix_length: "has_prefix s p \<Longrightarrow> length p \<le> length s"
  by (auto simp: has_prefix_iff)

lemma index_of_Some_prefix: "index_of s p = Some i \<Longrightarrow> has_prefix (drop i s) p \<and> i \<le> length s"
  by (induction s p arbitrary: i rule: index_of.induct) (auto split: if_splits)

lemma index_of_Some_least:
  "index_of s p = Some i \<Longrightarrow> j < i \<Longrightarrow> \<not> has_prefix (drop j s) p"
proof (induction s p arbitrary: i j rule: index_of.induct)
  case (2 c s p)
  then show ?case by (cases j) (auto split: if_splits)
qed (auto split: if_splits)

lemma index_of_None_iff: "index_of s p = None \<longleftrightarrow> (\<forall>j \<le> length s. \<not> has_prefix (drop j s) p)"
proof (induction s p rule: index_of.induct)
  case (2 c s p)
  show ?case
  proof (cases "has_prefix (c # s) p")
    case False
    have "(\<forall>j \<le> length (c # s). \<not> has_prefix (drop j (c # s)) p)
      \<longleftrightarrow> (\<forall>j \<le> length s. \<not> has_prefix (drop j s) p)" (is "?l \<longleftrightarrow> ?r")
    proof
      assume l: ?l
      show ?r
      proof (intro allI impI)
        fix j assume "j \<le> length s"
        with l [rule_format, of "Suc j"] show "\<not> has_prefix (drop j s) p" by simp
      qed
    next
      assume r: ?r
      show ?l
      proof (intro allI impI)
        fix j assume "j \<le> length (c # s)"
        with r False show "\<not> has_prefix (drop j (c # s)) p" by (cases j) auto
      qed
    qed
    with False 2 show ?thesis by simp
  qed auto
qed auto

lemma has_prefix_str: "has_prefix (str s) (str t) \<longleftrightarrow> has_prefix s t"
proof -
  have "take (length t) (str s) = str (take (length t) s)" by (simp add: str_def take_map)
  then show ?thesis by (simp add: has_prefix_def str_eq_iff)
qed

lemma trim_left_str: "trim_left (str s) (str t) = str (trim_left s t)"
  by (induction s) (auto simp: trim_left_def str_def of_char_byte_eq)

lemmas str_simps = str_eq_iff has_prefix_str trim_left_str

lemma trim_right_snoc_in [simp]: "c \<in> set cs \<Longrightarrow> trim_right (s @ [c]) cs = trim_right s cs"
  by (simp add: trim_right_def)

lemma trim_right_id: "s = [] \<or> last s \<notin> set cs \<Longrightarrow> trim_right s cs = s"
  by (cases s rule: rev_cases) (auto simp: trim_right_def)

lemma trim_left_id: "s = [] \<or> hd s \<notin> set cs \<Longrightarrow> trim_left s cs = s"
  by (cases s) (auto simp: trim_left_def)

end
