(* ===== verification/Go_Binary.thy ===== *)
theory Go_Binary
  imports Go_Prelude "HOL-Library.Monad_Syntax"
begin

text \<open>
  The part of \<open>encoding/binary\<close> the program uses: fixed-size integers in little and big
  endian order, and byte arrays. \<open>binary.Read\<close> of a struct reads its fields in order with
  no padding, so a struct decoder is a sequence of field decoders, each returning the rest
  of the input. The locale \<open>codec\<close> is the interface every such decoder is used through: a
  width, a layout (\<open>enc\<close>), a decoder, and the law that they are inverse to each other.
\<close>

section \<open>Bytes of a word\<close>

definition le_word :: "bytes \<Rightarrow> 'a::len word" where
  "le_word bs = foldr (\<lambda>b acc. ucast b OR push_bit 8 acc) bs 0"

definition word_le :: "nat \<Rightarrow> 'a::len word \<Rightarrow> bytes" where
  "word_le n w = map (\<lambda>i. ucast (drop_bit (8 * i) w)) [0..<n]"

definition be_word :: "bytes \<Rightarrow> 'a::len word" where
  "be_word bs = le_word (rev bs)"

definition word_be :: "nat \<Rightarrow> 'a::len word \<Rightarrow> bytes" where
  "word_be n w = rev (word_le n w)"

lemma le_word_simps [simp]:
  "le_word [] = 0"
  "le_word (b # bs) = ucast b OR push_bit 8 (le_word bs)"
  by (simp_all add: le_word_def)

lemma length_word_le [simp]: "length (word_le n w) = n"
  by (simp add: word_le_def)

lemma length_word_be [simp]: "length (word_be n w) = n"
  by (simp add: word_be_def)

lemma word_le_Suc: "word_le (Suc n) w = ucast w # word_le n (drop_bit 8 w)"
proof -
  have "[0..<Suc n] = 0 # map Suc [0..<n]"
    by (simp add: upt_conv_Cons map_Suc_upt del: upt_Suc)
  then show ?thesis
    by (simp add: word_le_def drop_bit_drop_bit comp_def algebra_simps del: upt_Suc)
qed

lemma word_le_0 [simp]: "word_le 0 w = []"
  by (simp add: word_le_def)

lemma le_word_word_le: "le_word (word_le n w) = take_bit (8 * n) w"
proof (induction n arbitrary: w)
  case (Suc n)
  have "ucast (ucast w :: byte) OR push_bit 8 (take_bit (8 * n) (drop_bit 8 w)) = take_bit (8 * Suc n) w"
    by (rule bit_word_eqI) (auto simp: bit_simps less_diff_conv2 not_less algebra_simps)
  with Suc show ?case by (simp add: word_le_Suc)
qed simp

lemma word_le_le_word: "8 * length bs \<le> LENGTH('a) \<Longrightarrow> word_le (length bs) (le_word bs :: 'a::len word) = bs"
proof (induction bs)
  case (Cons b bs)
  have len: "8 * length bs + 8 \<le> LENGTH('a)"
    using Cons.prems by simp
  have b: "ucast (ucast b OR push_bit 8 (le_word bs) :: 'a word) = b"
    using len by (intro bit_word_eqI) (auto simp: bit_simps)
  have high: "\<not> bit (le_word bs :: 'a word) n" if "8 * length bs \<le> n" for n
    using that
  proof (induction bs arbitrary: n)
    case (Cons c bs)
    have "\<not> bit (le_word bs :: 'a word) (n - 8)"
      using Cons.prems by (intro Cons.IH) simp
    moreover have "\<not> bit (ucast c :: 'a word) n"
      using Cons.prems bit_imp_le_length [of c n] by (auto simp: bit_simps)
    ultimately show ?case by (simp add: bit_simps)
  qed simp
  have bs: "drop_bit 8 (ucast b OR push_bit 8 (le_word bs) :: 'a word) = le_word bs"
  proof (rule bit_word_eqI)
    fix n assume n: "n < LENGTH('a)"
    have "\<not> bit b (8 + n)" using bit_imp_le_length [of b "8 + n"] by auto
    moreover have "bit (le_word bs :: 'a word) n \<Longrightarrow> 8 + n < LENGTH('a)"
      using high [of n] len by (cases "8 * length bs \<le> n") auto
    ultimately show "bit (drop_bit 8 (ucast b OR push_bit 8 (le_word bs) :: 'a word)) n = bit (le_word bs :: 'a word) n"
      by (auto simp: bit_simps)
  qed
  from Cons b bs show ?case by (simp add: word_le_Suc)
qed simp

section \<open>The codec interface\<close>

locale codec =
  fixes enc :: "'a \<Rightarrow> bytes"
    and dec :: "bytes \<Rightarrow> ('a \<times> bytes) option"
    and width :: nat
    and valid :: "'a \<Rightarrow> bool"
  assumes dec_enc: "valid x \<Longrightarrow> dec (enc x @ rest) = Some (x, rest)"
    and dec_sound: "dec bs = Some (x, rest) \<Longrightarrow> valid x \<and> bs = enc x @ rest"
    and enc_width: "valid x \<Longrightarrow> length (enc x) = width"
    and dec_total: "width \<le> length bs \<Longrightarrow> \<exists>r. dec bs = Some r"
begin

lemma dec_exact: "valid x \<Longrightarrow> dec (enc x) = Some (x, [])"
  using dec_enc [of x "[]"] by simp

lemma enc_inj: "valid x \<Longrightarrow> valid y \<Longrightarrow> enc x = enc y \<Longrightarrow> x = y"
  by (metis dec_exact option.inject prod.inject)

lemma dec_consumes: "dec bs = Some (x, rest) \<Longrightarrow> length bs = width + length rest"
  using dec_sound [of bs x rest] enc_width [of x] by auto

lemma dec_rest: "dec bs = Some (x, rest) \<Longrightarrow> rest = drop width bs \<and> enc x = take width bs"
  using dec_sound [of bs x rest] enc_width [of x] by auto

lemma dec_None_iff: "dec bs = None \<longleftrightarrow> length bs < width"
proof
  assume "dec bs = None"
  then show "length bs < width" using dec_total [of bs] by (cases "width \<le> length bs") auto
next
  assume "length bs < width"
  then show "dec bs = None" using dec_consumes [of bs] by (cases "dec bs") auto
qed

lemma dec_prefix_only: "width \<le> length bs \<Longrightarrow> map_option fst (dec (bs @ cs)) = map_option fst (dec bs)"
proof -
  assume "width \<le> length bs"
  then obtain x rest where d: "dec bs = Some (x, rest)" using dec_total [of bs] by auto
  with dec_sound [OF d] dec_enc [of x "rest @ cs"] show ?thesis by simp
qed

end

section \<open>Field decoders\<close>

definition get_bytes :: "nat \<Rightarrow> bytes \<Rightarrow> (bytes \<times> bytes) option" where
  "get_bytes n bs = (if n \<le> length bs then Some (take n bs, drop n bs) else None)"

definition get_le :: "nat \<Rightarrow> bytes \<Rightarrow> ('a::len word \<times> bytes) option" where
  "get_le n bs = (if n \<le> length bs then Some (le_word (take n bs), drop n bs) else None)"

definition get_be :: "nat \<Rightarrow> bytes \<Rightarrow> ('a::len word \<times> bytes) option" where
  "get_be n bs = (if n \<le> length bs then Some (be_word (take n bs), drop n bs) else None)"

abbreviation get_u32 :: "bytes \<Rightarrow> (u32 \<times> bytes) option" where
  "get_u32 \<equiv> get_le 4"

abbreviation get_u64 :: "bytes \<Rightarrow> (u64 \<times> bytes) option" where
  "get_u64 \<equiv> get_le 8"

abbreviation put_u32 :: "u32 \<Rightarrow> bytes" where
  "put_u32 \<equiv> word_le 4"

abbreviation put_u64 :: "u64 \<Rightarrow> bytes" where
  "put_u64 \<equiv> word_le 8"

lemma word_le_le_word' [simp]: "length bs = n \<Longrightarrow> 8 * n \<le> LENGTH('a) \<Longrightarrow> word_le n (le_word bs :: 'a::len word) = bs"
  using word_le_le_word [of bs, where 'a = 'a] by simp

lemma codec_get_bytes: "codec (\<lambda>x. x) (get_bytes n) n (\<lambda>x. length x = n)"
  by unfold_locales (auto simp: get_bytes_def split: if_splits)

lemma codec_get_le: "8 * n = LENGTH('a) \<Longrightarrow> codec (word_le n) (get_le n) n (\<lambda>_ :: 'a::len word. True)"
  by unfold_locales (auto simp: get_le_def le_word_word_le split: if_splits)

lemma codec_get_be: "8 * n = LENGTH('a) \<Longrightarrow> codec (word_be n) (get_be n) n (\<lambda>_ :: 'a::len word. True)"
  by unfold_locales
    (auto simp: get_be_def be_word_def word_be_def le_word_word_le split: if_splits)

interpretation u32le: codec put_u32 get_u32 4 "\<lambda>_. True"
  by (rule codec_get_le) simp

interpretation u64le: codec put_u64 get_u64 8 "\<lambda>_. True"
  by (rule codec_get_le) simp

interpretation u32be: codec "word_be 4 :: u32 \<Rightarrow> bytes" "get_be 4" 4 "\<lambda>_. True"
  by (rule codec_get_be) simp

interpretation u64be: codec "word_be 8 :: u64 \<Rightarrow> bytes" "get_be 8" 8 "\<lambda>_. True"
  by (rule codec_get_be) simp

interpretation raw: codec "\<lambda>x. x" "get_bytes n" n "\<lambda>x. length x = n"
  by (rule codec_get_bytes)

lemmas field_dec_enc [simp] = u32le.dec_enc [OF TrueI] u64le.dec_enc [OF TrueI] raw.dec_enc

lemmas field_dec_exact [simp] = u32le.dec_exact [OF TrueI] u64le.dec_exact [OF TrueI] raw.dec_exact

lemma field_dec_sound:
  "get_u32 bs = Some (w, rest) \<Longrightarrow> bs = put_u32 w @ rest"
  "get_u64 bs = Some (v, rest) \<Longrightarrow> bs = put_u64 v @ rest"
  "get_bytes n bs = Some (x, rest) \<Longrightarrow> length x = n \<and> bs = x @ rest"
  using u32le.dec_sound u64le.dec_sound raw.dec_sound by blast+

lemma field_dec_total:
  "4 \<le> length bs \<Longrightarrow> get_u32 bs = Some (le_word (take 4 bs), drop 4 bs)"
  "8 \<le> length bs \<Longrightarrow> get_u64 bs = Some (le_word (take 8 bs), drop 8 bs)"
  "n \<le> length bs \<Longrightarrow> get_bytes n bs = Some (take n bs, drop n bs)"
  by (simp_all add: get_le_def get_bytes_def)

end
