(* ===== verification/Go_Strings.thy ===== *)
theory Go_Strings
  imports Go_Prelude
begin

text \<open>
  The parts of \<open>strconv\<close>, \<open>fmt\<close>, \<open>strings\<close>, \<open>bytes\<close> and \<open>path\<close> that the sources call:
  \<open>strconv.ParseUint\<close> and \<open>ParseInt\<close>, the \<open>%08x\<close> verb, \<open>Split\<close> and \<open>Join\<close> with a
  separator of one byte, \<open>bytes.Fields\<close>, and \<open>path.Clean\<close>.
\<close>

section \<open>Numbers\<close>

definition digit_val :: "byte \<Rightarrow> nat option" where
  "digit_val c =
     (let lc = c OR 0x20 in
      if 48 \<le> c \<and> c \<le> 57 then Some (unat c - 48)
      else if 97 \<le> lc \<and> lc \<le> 122 then Some (unat lc - 97 + 10)
      else None)"

fun parse_digits :: "nat \<Rightarrow> nat \<Rightarrow> nat \<Rightarrow> bytes \<Rightarrow> nat go" where
  "parse_digits base lim n [] = Inr n"
| "parse_digits base lim n (c # cs) =
     (case digit_val c of
        None \<Rightarrow> Inl (Err ParseSyntax)
      | Some d \<Rightarrow>
          if d \<ge> base then Inl (Err ParseSyntax)
          else if n * base + d > lim then Inl (Err ParseRange)
          else parse_digits base lim (n * base + d) cs)"

definition ParseUint :: "bytes \<Rightarrow> nat \<Rightarrow> nat \<Rightarrow> nat go" where
  "ParseUint s base bits =
     (if s = [] then Inl (Err ParseSyntax) else parse_digits base (2 ^ bits - 1) 0 s)"

definition ParseInt :: "bytes \<Rightarrow> nat \<Rightarrow> nat \<Rightarrow> int go" where
  "ParseInt s base bits =
     (if s = [] then Inl (Err ParseSyntax)
      else
        let neg = (hd s = 45);
            digits = (if hd s = 43 \<or> hd s = 45 then tl s else s)
        in case ParseUint digits base bits of
             Inl e \<Rightarrow> Inl e
           | Inr un \<Rightarrow>
               if \<not> neg \<and> un \<ge> 2 ^ (bits - 1) then Inl (Err ParseRange)
               else if neg \<and> un > 2 ^ (bits - 1) then Inl (Err ParseRange)
               else Inr (if neg then - int un else int un))"

definition hex_digit :: "nat \<Rightarrow> byte" where
  "hex_digit d = (if d < 10 then of_nat (48 + d) else of_nat (87 + d))"

fun hex_digits :: "nat \<Rightarrow> bytes" where
  "hex_digits n = (if n < 16 then [hex_digit n] else hex_digits (n div 16) @ [hex_digit (n mod 16)])"

declare hex_digits.simps [simp del]

definition hex8 :: "nat \<Rightarrow> bytes" where
  "hex8 n = (let ds = hex_digits n in replicate (8 - length ds) 48 @ ds)"

lemma digit_val_hex_digit: "d < 16 \<Longrightarrow> digit_val (hex_digit d) = Some d"
proof -
  assume "d < 16"
  then have "d \<in> set [0..<16]" by simp
  moreover have "\<forall>d \<in> set [0..<16]. digit_val (hex_digit d) = Some d" by code_simp
  ultimately show ?thesis by blast
qed

lemma hex_digits_length: "0 < k \<Longrightarrow> n < 16 ^ k \<Longrightarrow> length (hex_digits n) \<le> k"
proof (induction k arbitrary: n)
  case (Suc k)
  show ?case
  proof (cases "n < 16")
    case True
    then show ?thesis by (subst hex_digits.simps) simp
  next
    case False
    then have "0 < k" using Suc.prems by (cases k) auto
    moreover have "n div 16 < 16 ^ k" using Suc.prems by (simp add: less_mult_imp_div_less mult.commute)
    ultimately have "length (hex_digits (n div 16)) \<le> k" by (rule Suc.IH)
    with False show ?thesis by (subst hex_digits.simps) simp
  qed
qed simp

lemma length_hex8: "n < 2 ^ 32 \<Longrightarrow> length (hex8 n) = 8"
  using hex_digits_length [of 8 n] by (simp add: hex8_def Let_def)

lemma parse_digits_append:
  "parse_digits base lim n (xs @ ys) = go_bind (parse_digits base lim n xs) (\<lambda>m. parse_digits base lim m ys)"
  by (induction xs arbitrary: n) (auto split: option.split)

lemma parse_hex_digits: "n \<le> lim \<Longrightarrow> parse_digits 16 lim 0 (hex_digits n) = Inr n"
proof (induction n rule: hex_digits.induct)
  case (1 n)
  show ?case
  proof (cases "n < 16")
    case True
    with 1 show ?thesis by (subst hex_digits.simps) (simp add: digit_val_hex_digit)
  next
    case False
    with 1 have "parse_digits 16 lim 0 (hex_digits (n div 16)) = Inr (n div 16)" by simp
    with 1 False show ?thesis
      by (subst hex_digits.simps) (simp add: parse_digits_append digit_val_hex_digit)
  qed
qed

lemma parse_zeros: "parse_digits 16 lim 0 (replicate k 48 @ xs) = parse_digits 16 lim 0 xs"
proof -
  have "digit_val 48 = Some 0" by (simp add: digit_val_def)
  then show ?thesis by (induction k) auto
qed

lemma hex_digits_nonempty: "hex_digits n \<noteq> []"
  by (subst hex_digits.simps) simp

lemma ParseUint_hex8: "n < 2 ^ 32 \<Longrightarrow> ParseUint (hex8 n) 16 32 = Inr n"
  by (simp add: ParseUint_def hex8_def Let_def parse_zeros parse_hex_digits hex_digits_nonempty)

lemma parse_digits_bound: "parse_digits base lim n s = Inr m \<Longrightarrow> n \<le> lim \<Longrightarrow> m \<le> lim"
  by (induction s arbitrary: n) (auto split: option.splits if_splits)

lemma ParseUint_bound:
  assumes "ParseUint s base bits = Inr m"
  shows "m < 2 ^ bits"
proof -
  have "parse_digits base (2 ^ bits - 1) 0 s = Inr m"
    using assms by (simp add: ParseUint_def split: if_splits)
  then have "m \<le> 2 ^ bits - 1" by (rule parse_digits_bound) simp
  moreover have "0 < (2 :: nat) ^ bits" by simp
  ultimately show ?thesis by linarith
qed

section \<open>Split and Join\<close>

fun split_on :: "'a \<Rightarrow> 'a list \<Rightarrow> 'a list list" where
  "split_on c [] = [[]]"
| "split_on c (x # xs) =
     (if x = c then [] # split_on c xs
      else (case split_on c xs of [] \<Rightarrow> [[x]] | y # ys \<Rightarrow> (x # y) # ys))"

fun join_with :: "'a list \<Rightarrow> 'a list list \<Rightarrow> 'a list" where
  "join_with s [] = []"
| "join_with s [x] = x"
| "join_with s (x # y # ys) = x @ s @ join_with s (y # ys)"

lemma split_on_nonempty [simp]: "split_on c xs \<noteq> []"
  by (cases xs) (auto split: list.split)

lemma join_split [simp]: "join_with [c] (split_on c xs) = xs"
proof (induction xs)
  case (Cons x xs)
  obtain y ys where "split_on c xs = y # ys" by (cases "split_on c xs") auto
  with Cons show ?case by (cases ys) auto
qed simp

lemma split_on_no_sep: "\<forall>x \<in> set (split_on c xs). c \<notin> set x"
  by (induction xs) (auto split: list.split)

lemma split_on_id: "c \<notin> set xs \<Longrightarrow> split_on c xs = [xs]"
  by (induction xs) auto

lemma split_on_append: "c \<notin> set xs \<Longrightarrow> split_on c (xs @ c # ys) = xs # split_on c ys"
  by (induction xs) auto

lemma split_join: "xs \<noteq> [] \<Longrightarrow> \<forall>x \<in> set xs. c \<notin> set x \<Longrightarrow> split_on c (join_with [c] xs) = xs"
  by (induction "[c]" xs rule: join_with.induct) (auto simp: split_on_id split_on_append)

end
