(* ===== verification/Align.thy ===== *)
theory Align
  imports Go_Prelude
begin

text \<open>
  Rounding a \<open>uint64\<close> up to a multiple: \<open>align_to\<close> and \<open>align_padding\<close> of
  \<open>common.go\<close>, \<open>align_4\<close> of \<open>cpio.go\<close>. Arithmetic is on 64-bit words, so the sum
  \<open>v + a - 1\<close> wraps as it does in Go, and a zero alignment is the division panic.
  \<open>align4\<close> is the same rounding on positions of a slice (natural numbers); the archive
  theories use it where the position is known to be far below the word bound.
\<close>

definition align_to :: "u64 \<Rightarrow> u64 \<Rightarrow> u64 go" where
  "align_to v a = (if a = 0 then Inl (Panic DivideByZero) else Inr ((v + a - 1) div a * a))"

definition align_padding :: "u64 \<Rightarrow> u64 \<Rightarrow> u64 go" where
  "align_padding v a = go_bind (align_to v a) (\<lambda>x. Inr (x - v))"

definition align_4 :: "u64 \<Rightarrow> u64" where
  "align_4 x = (x + 3) AND NOT 3"

definition align4 :: "nat \<Rightarrow> nat" where
  "align4 n = (n + 3) div 4 * 4"

lemma align4_ge [simp]: "n \<le> align4 n"
  by (simp add: align4_def)

lemma align4_lt: "align4 n < n + 4"
  by (simp add: align4_def)

lemma align4_mod [simp]: "align4 n mod 4 = 0"
  by (simp add: align4_def)

lemma align4_id: "n mod 4 = 0 \<Longrightarrow> align4 n = n"
  by (simp add: align4_def) presburger

lemma align4_idem [simp]: "align4 (align4 n) = align4 n"
  by (simp add: align4_id)

lemma align4_add_mult: "m mod 4 = 0 \<Longrightarrow> align4 (m + n) = m + align4 n"
  by (simp add: align4_def) presburger

lemma align4_mono: "m \<le> n \<Longrightarrow> align4 m \<le> align4 n"
  by (simp add: align4_def div_le_mono)

lemma and_not_3: "(y :: u64) AND NOT 3 = y div 4 * 4"
proof -
  have "(3 :: u64) = mask 2" by (simp add: mask_eq_exp_minus_1)
  moreover have "y AND NOT (mask 2) = push_bit 2 (drop_bit 2 y)"
    by (rule bit_word_eqI) (auto simp: bit_simps simp flip: add_2_eq_Suc)
  ultimately show ?thesis by (simp add: push_bit_eq_mult drop_bit_eq_div)
qed

lemma align_to_4: "align_to x 4 = Inr (align_4 x)"
proof -
  have "x + 4 - 1 = x + 3" by simp
  then show ?thesis by (simp only: align_to_def align_4_def and_not_3) simp
qed

lemma unat_align_to:
  assumes "a \<noteq> 0" "unat v + unat a \<le> 2 ^ 64"
  shows "\<exists>x. align_to v a = Inr x \<and> unat x = (unat v + unat a - 1) div unat a * unat a"
proof -
  have a: "0 < unat a" using assms(1) by (simp add: unat_gt_0)
  have s: "unat (v + a - 1) = unat v + unat a - 1"
  proof (cases "unat v + unat a = 2 ^ 64")
    case True
    then have "v + a = 0" by (intro word_unat_eq_iff [THEN iffD2]) (simp add: unat_word_ariths)
    then have "v + a - 1 = - 1" by simp
    then show ?thesis using True by (simp add: unsigned_minus_1_eq_mask mask_eq_exp_minus_1)
  next
    case False
    with assms(2) have "unat (v + a) = unat v + unat a" by (simp add: unat_word_ariths)
    moreover from this a have "v + a \<noteq> 0" by (metis add_is_0 neq0_conv unat_0)
    ultimately show ?thesis by (simp add: unat_minus_one)
  qed
  have b: "(unat v + unat a - 1) div unat a * unat a < 2 ^ 64"
    using a assms(2) div_times_less_eq_dividend [of "unat v + unat a - 1" "unat a"] by linarith
  have "unat ((v + a - 1) div a * a) = unat ((v + a - 1) div a) * unat a"
    using b by (subst unat_mult_lem [symmetric]) (simp add: unat_div s)
  then have "unat ((v + a - 1) div a * a) = (unat v + unat a - 1) div unat a * unat a"
    by (simp only: unat_div s)
  with assms(1) show ?thesis by (simp add: align_to_def)
qed

lemma unat_align_4: "unat x + 3 < 2 ^ 64 \<Longrightarrow> unat (align_4 x) = align4 (unat x)"
  using unat_align_to [of 4 x] by (auto simp: align_to_4 align4_def)

text \<open>
  C37. Rounding up is correct whenever the sum does not pass \<open>2 ^ 64\<close>: the result is the
  least multiple of \<open>a\<close> that is at least \<open>v\<close>, and \<open>align_padding\<close> is the distance to it,
  which is less than \<open>a\<close>.
\<close>

theorem align_to_least_multiple:
  assumes "a \<noteq> 0" and "unat v + unat a \<le> 2 ^ 64"
  shows "\<exists>x p. align_to v a = Inr x \<and> align_padding v a = Inr p
    \<and> unat x mod unat a = 0 \<and> unat v \<le> unat x
    \<and> (\<forall>m. m mod unat a = 0 \<and> unat v \<le> m \<longrightarrow> unat x \<le> m)
    \<and> unat p = unat x - unat v \<and> unat p < unat a"
proof -
  obtain x where x: "align_to v a = Inr x" "unat x = (unat v + unat a - 1) div unat a * unat a"
    using unat_align_to [OF assms] by blast
  have a: "0 < unat a" using assms(1) by (simp add: unat_gt_0)
  define n where "n = unat v + unat a - 1"
  have nx: "unat x + n mod unat a = n"
    using x(2) by (simp add: n_def)
  have lt: "n mod unat a < unat a" using a by simp
  have ge: "unat v \<le> unat x" and near: "unat x < unat v + unat a"
    using nx lt a n_def by linarith+
  have least: "unat x \<le> m" if "m mod unat a = 0" "unat v \<le> m" for m
  proof -
    obtain k where k: "m = unat a * k" using \<open>m mod unat a = 0\<close> by (auto simp: mod_eq_0_iff_dvd elim: dvdE)
    have "n \<le> m + (unat a - 1)" using that(2) a by (simp add: n_def)
    then have "n div unat a \<le> (unat a - 1 + unat a * k) div unat a"
      by (intro div_le_mono) (simp add: k add.commute)
    also have "\<dots> = k" using a by (subst div_mult_self2) simp_all
    finally have "n div unat a * unat a \<le> k * unat a" by (rule mult_le_mono1)
    then show ?thesis by (simp only: x(2) n_def k mult.commute)
  qed
  have "unat (x - v) = unat x - unat v"
    using ge by (simp add: unat_sub word_le_nat_alt)
  with x ge near least show ?thesis
    by (intro exI [of _ x] exI [of _ "x - v"]) (auto simp: align_padding_def)
qed

theorem align_to_least_multiple_witness:
  "\<exists>x p. align_to 2128 4096 = Inr x \<and> align_padding 2128 4096 = Inr p \<and> unat x = 4096 \<and> unat p = 1968"
proof -
  have h: "(4096 :: u64) \<noteq> 0" "unat (2128 :: u64) + unat (4096 :: u64) \<le> 2 ^ 64" by simp_all
  obtain x p where xp: "align_to 2128 4096 = Inr x" "align_padding 2128 4096 = Inr p"
    using align_to_least_multiple [OF h] by blast
  then show ?thesis by (auto simp: align_to_def align_padding_def)
qed

end
