(* ===== verification/Format.thy ===== *)
theory Format
  imports Go_Prelude
begin

text \<open>
  \<open>format.go\<close>: the format codes, the magic numbers, \<open>CheckFmt\<close>, and the tables between
  formats, names and file extensions. A format code is an enumeration whose order (the
  \<open>iota\<close> order) decides \<open>COMPRESSED\<close>; it is made a linear order of the library.
\<close>

datatype format_t =
    UNKNOWN
  | CHROMEOS | AOSP | AOSP_VENDOR | DHTB | BLOB
  | GZIP | ZOPFLI | XZ | LZMA | BZIP2 | LZ4 | LZ4_LEGACY | LZ4_LG
  | LZOP
  | MTK | DTB | ZIMAGE

definition format_list :: "format_t list" where
  "format_list = [UNKNOWN, CHROMEOS, AOSP, AOSP_VENDOR, DHTB, BLOB, GZIP, ZOPFLI, XZ, LZMA, BZIP2,
     LZ4, LZ4_LEGACY, LZ4_LG, LZOP, MTK, DTB, ZIMAGE]"

fun format_code :: "format_t \<Rightarrow> nat" where
  "format_code UNKNOWN = 0"
| "format_code CHROMEOS = 1"
| "format_code AOSP = 2"
| "format_code AOSP_VENDOR = 3"
| "format_code DHTB = 4"
| "format_code BLOB = 5"
| "format_code GZIP = 6"
| "format_code ZOPFLI = 7"
| "format_code XZ = 8"
| "format_code LZMA = 9"
| "format_code BZIP2 = 10"
| "format_code LZ4 = 11"
| "format_code LZ4_LEGACY = 12"
| "format_code LZ4_LG = 13"
| "format_code LZOP = 14"
| "format_code MTK = 15"
| "format_code DTB = 16"
| "format_code ZIMAGE = 17"

lemma format_code_inj: "format_code f = format_code g \<Longrightarrow> f = g"
  by (cases f; cases g) simp_all

lemma format_code_list: "map format_code format_list = [0..<18]"
  by (simp add: format_list_def upt_rec)

instantiation format_t :: linorder
begin

definition less_eq_format_t :: "format_t \<Rightarrow> format_t \<Rightarrow> bool" where
  "less_eq_format_t f g \<longleftrightarrow> format_code f \<le> format_code g"

definition less_format_t :: "format_t \<Rightarrow> format_t \<Rightarrow> bool" where
  "less_format_t f g \<longleftrightarrow> format_code f < format_code g"

instance
  by standard (auto simp: less_eq_format_t_def less_format_t_def intro: format_code_inj)

end

definition COMPRESSED :: "format_t \<Rightarrow> bool" where
  "COMPRESSED f \<longleftrightarrow> f \<ge> GZIP \<and> f < LZOP"

definition COMPRESSED_ANY :: "format_t \<Rightarrow> bool" where
  "COMPRESSED_ANY f \<longleftrightarrow> f \<ge> GZIP \<and> f \<le> LZOP"

lemma COMPRESSED_iff: "COMPRESSED f \<longleftrightarrow> f \<in> {GZIP, ZOPFLI, XZ, LZMA, BZIP2, LZ4, LZ4_LEGACY, LZ4_LG}"
  by (cases f) (simp_all add: COMPRESSED_def less_eq_format_t_def less_format_t_def)

lemma COMPRESSED_ANY_iff: "COMPRESSED_ANY f \<longleftrightarrow> COMPRESSED f \<or> f = LZOP"
  by (cases f) (simp_all add: COMPRESSED_ANY_def COMPRESSED_def less_eq_format_t_def less_format_t_def)

section \<open>Magic numbers\<close>

definition BOOT_MAGIC :: bytes where "BOOT_MAGIC = str ''ANDROID!''"
definition VENDOR_BOOT_MAGIC :: bytes where "VENDOR_BOOT_MAGIC = str ''VNDRBOOT''"
definition CHROMEOS_MAGIC :: bytes where "CHROMEOS_MAGIC = str ''CHROMEOS''"
definition GZIP1_MAGIC :: bytes where "GZIP1_MAGIC = [0x1f, 0x8b]"
definition GZIP2_MAGIC :: bytes where "GZIP2_MAGIC = [0x1f, 0x9e]"
definition LZOP_MAGIC :: bytes where "LZOP_MAGIC = 0x89 # str ''LZO''"
definition XZ_MAGIC :: bytes where "XZ_MAGIC = 0xfd # str ''7zXZ''"
definition BZIP_MAGIC :: bytes where "BZIP_MAGIC = str ''BZh''"
definition LZ4_LEG_MAGIC :: bytes where "LZ4_LEG_MAGIC = [0x02, 0x21, 0x4c, 0x18]"
definition LZ41_MAGIC :: bytes where "LZ41_MAGIC = [0x03, 0x21, 0x4c, 0x18]"
definition LZ42_MAGIC :: bytes where "LZ42_MAGIC = [0x04, 0x22, 0x4d, 0x18]"
definition MTK_MAGIC :: bytes where "MTK_MAGIC = [0x88, 0x16, 0x88, 0x58]"
definition DTB_MAGIC :: bytes where "DTB_MAGIC = [0xd0, 0x0d, 0xfe, 0xed]"
definition DHTB_MAGIC :: bytes where "DHTB_MAGIC = [0x44, 0x48, 0x54, 0x42, 0x01, 0x00, 0x00, 0x00]"
definition TEGRABLOB_MAGIC :: bytes where "TEGRABLOB_MAGIC = str ''-SIGNED-BY-SIGNBLOB-''"
definition ZIMAGE_MAGIC :: bytes where "ZIMAGE_MAGIC = [0x18, 0x28, 0x6f, 0x01]"

lemmas magic_defs = BOOT_MAGIC_def VENDOR_BOOT_MAGIC_def CHROMEOS_MAGIC_def GZIP1_MAGIC_def
  GZIP2_MAGIC_def LZOP_MAGIC_def XZ_MAGIC_def BZIP_MAGIC_def LZ4_LEG_MAGIC_def LZ41_MAGIC_def
  LZ42_MAGIC_def MTK_MAGIC_def DTB_MAGIC_def DHTB_MAGIC_def TEGRABLOB_MAGIC_def ZIMAGE_MAGIC_def

section \<open>Detection\<close>

text \<open>
  The expression \<open>buf[:len(p)]\<close> is legal up to the capacity of \<open>buf\<close>, so \<open>CheckFmt\<close>
  takes the slice and the spare bytes between its length and its capacity.
  \<open>CHECKED_MATCH\<close> panics when the capacity is too small. The tests are tried in order.
\<close>

definition checked_match :: "bytes \<Rightarrow> bytes \<Rightarrow> bytes \<Rightarrow> bool go" where
  "checked_match buf spare p = go_bind (go_slice (buf @ spare) 0 (length p)) (\<lambda>s. Inr (p = s))"

fun checked_any :: "bytes \<Rightarrow> bytes \<Rightarrow> bytes list \<Rightarrow> bool go" where
  "checked_any buf spare [] = Inr False"
| "checked_any buf spare (p # ps) =
     go_bind (checked_match buf spare p) (\<lambda>b. if b then Inr True else checked_any buf spare ps)"

definition lzma_match :: "bytes \<Rightarrow> bool" where
  "lzma_match buf \<longleftrightarrow>
     (length buf \<ge> 13 \<and> take 3 buf = [0x5d, 0x00, 0x00]) \<and> (buf ! 12 = 0xff \<or> buf ! 12 = 0x00)"

definition zimage_match :: "bytes \<Rightarrow> bool" where
  "zimage_match buf \<longleftrightarrow> length buf \<ge> 0x28 \<and> take 4 (drop 0x24 buf) = ZIMAGE_MAGIC"

definition CheckFmt :: "bytes \<Rightarrow> bytes \<Rightarrow> format_t go" where
  "CheckFmt buf spare =
     go_bind (checked_any buf spare [CHROMEOS_MAGIC]) (\<lambda>b. if b then Inr CHROMEOS else
     go_bind (checked_any buf spare [BOOT_MAGIC]) (\<lambda>b. if b then Inr AOSP else
     go_bind (checked_any buf spare [VENDOR_BOOT_MAGIC]) (\<lambda>b. if b then Inr AOSP_VENDOR else
     go_bind (checked_any buf spare [GZIP1_MAGIC, GZIP2_MAGIC]) (\<lambda>b. if b then Inr GZIP else
     go_bind (checked_any buf spare [LZOP_MAGIC]) (\<lambda>b. if b then Inr LZOP else
     go_bind (checked_any buf spare [XZ_MAGIC]) (\<lambda>b. if b then Inr XZ else
     if lzma_match buf then Inr LZMA else
     go_bind (checked_any buf spare [BZIP_MAGIC]) (\<lambda>b. if b then Inr BZIP2 else
     go_bind (checked_any buf spare [LZ41_MAGIC, LZ42_MAGIC]) (\<lambda>b. if b then Inr LZ4 else
     go_bind (checked_any buf spare [LZ4_LEG_MAGIC]) (\<lambda>b. if b then Inr LZ4_LEGACY else
     go_bind (checked_any buf spare [MTK_MAGIC]) (\<lambda>b. if b then Inr MTK else
     go_bind (checked_any buf spare [DTB_MAGIC]) (\<lambda>b. if b then Inr DTB else
     go_bind (checked_any buf spare [DHTB_MAGIC]) (\<lambda>b. if b then Inr DHTB else
     go_bind (checked_any buf spare [TEGRABLOB_MAGIC]) (\<lambda>b. if b then Inr BLOB else
     if zimage_match buf then Inr ZIMAGE else Inr UNKNOWN)))))))))))))"

section \<open>Names and extensions\<close>

fun Fmt2Name :: "format_t \<Rightarrow> bytes" where
  "Fmt2Name GZIP = str ''gzip''"
| "Fmt2Name ZOPFLI = str ''zopfli''"
| "Fmt2Name LZOP = str ''lzop''"
| "Fmt2Name XZ = str ''xz''"
| "Fmt2Name LZMA = str ''lzma''"
| "Fmt2Name BZIP2 = str ''bzip2''"
| "Fmt2Name LZ4 = str ''lz4''"
| "Fmt2Name LZ4_LEGACY = str ''lz4_legacy''"
| "Fmt2Name LZ4_LG = str ''lz4_lg''"
| "Fmt2Name DTB = str ''dtb''"
| "Fmt2Name ZIMAGE = str ''zimage''"
| "Fmt2Name _ = str ''raw''"

fun Fmt2Ext :: "format_t \<Rightarrow> bytes" where
  "Fmt2Ext GZIP = str ''.gz''"
| "Fmt2Ext ZOPFLI = str ''.gz''"
| "Fmt2Ext LZOP = str ''.lzo''"
| "Fmt2Ext XZ = str ''.xz''"
| "Fmt2Ext LZMA = str ''.lzma''"
| "Fmt2Ext BZIP2 = str ''.bz2''"
| "Fmt2Ext LZ4 = str ''.lz4''"
| "Fmt2Ext LZ4_LEGACY = str ''.lz4''"
| "Fmt2Ext LZ4_LG = str ''.lz4''"
| "Fmt2Ext _ = str ''''"

definition Name2Fmt :: "bytes \<Rightarrow> format_t" where
  "Name2Fmt name =
     (if name = str ''gzip'' then GZIP
      else if name = str ''zopfli'' then ZOPFLI
      else if name = str ''xz'' then XZ
      else if name = str ''lzma'' then LZMA
      else if name = str ''bzip2'' then BZIP2
      else if name = str ''lz4'' then LZ4
      else if name = str ''lz4_legacy'' then LZ4_LEGACY
      else if name = str ''lz4_lg'' then LZ4_LG
      else UNKNOWN)"

definition compress_formats :: "format_t list" where
  "compress_formats = [GZIP, ZOPFLI, XZ, LZMA, BZIP2, LZ4, LZ4_LEGACY, LZ4_LG]"

lemma COMPRESSED_set: "COMPRESSED f \<longleftrightarrow> f \<in> set compress_formats"
  by (simp add: COMPRESSED_iff compress_formats_def)

lemma Name2Fmt_find:
  "Name2Fmt name = (case find (\<lambda>f. name = Fmt2Name f) compress_formats of Some f \<Rightarrow> f | None \<Rightarrow> UNKNOWN)"
  by (simp add: Name2Fmt_def compress_formats_def)

lemma Fmt2Name_distinct: "distinct (map Fmt2Name compress_formats)"
  by code_simp

lemma Name2Fmt_Fmt2Name: "COMPRESSED f \<Longrightarrow> Name2Fmt (Fmt2Name f) = f"
proof -
  assume "COMPRESSED f"
  then have f: "f \<in> set compress_formats" by (simp only: COMPRESSED_set)
  show ?thesis
  proof (cases "find (\<lambda>g. Fmt2Name f = Fmt2Name g) compress_formats")
    case None
    with f show ?thesis by (auto simp: find_None_iff)
  next
    case (Some g)
    then have "g \<in> set compress_formats" "Fmt2Name f = Fmt2Name g" by (auto simp: find_Some_iff)
    with f Fmt2Name_distinct have "f = g" by (auto simp: distinct_map dest: inj_onD)
    with Some show ?thesis by (simp only: Name2Fmt_find) simp
  qed
qed

lemma Name2Fmt_range:
  "Name2Fmt name = UNKNOWN \<or> (\<exists>g. COMPRESSED g \<and> name = Fmt2Name g)"
proof (cases "find (\<lambda>f. name = Fmt2Name f) compress_formats")
  case None
  then show ?thesis by (simp only: Name2Fmt_find) simp
next
  case (Some g)
  then have "g \<in> set compress_formats" "name = Fmt2Name g" by (auto simp: find_Some_iff)
  then show ?thesis by (auto simp only: COMPRESSED_set)
qed

section \<open>What detection recognises\<close>

text \<open>
  The reference view: a table of the magic numbers at offset 0. No entry is a prefix of
  another, so at most one format matches and the order of the tests does not matter.
\<close>

definition magic_table :: "(format_t \<times> bytes) list" where
  "magic_table =
     [(CHROMEOS, CHROMEOS_MAGIC), (AOSP, BOOT_MAGIC), (AOSP_VENDOR, VENDOR_BOOT_MAGIC),
      (GZIP, GZIP1_MAGIC), (GZIP, GZIP2_MAGIC), (LZOP, LZOP_MAGIC), (XZ, XZ_MAGIC),
      (BZIP2, BZIP_MAGIC), (LZ4, LZ41_MAGIC), (LZ4, LZ42_MAGIC), (LZ4_LEGACY, LZ4_LEG_MAGIC),
      (MTK, MTK_MAGIC), (DTB, DTB_MAGIC), (DHTB, DHTB_MAGIC), (BLOB, TEGRABLOB_MAGIC)]"

definition starts_as :: "bytes \<Rightarrow> format_t \<Rightarrow> bool" where
  "starts_as s f \<longleftrightarrow> (\<exists>p \<in> set magic_table. fst p = f \<and> has_prefix s (snd p))"

definition detected :: "bytes \<Rightarrow> bytes \<Rightarrow> format_t \<Rightarrow> bool" where
  "detected buf spare f \<longleftrightarrow> starts_as (buf @ spare) f \<or> f = LZMA \<and> lzma_match buf"

lemma has_prefix_chain:
  "has_prefix s p \<Longrightarrow> has_prefix s q \<Longrightarrow> length p \<le> length q \<Longrightarrow> has_prefix q p"
  by (metis has_prefix_def min.absorb1 take_take)

lemma magic_table_prefix_free:
  "\<forall>x \<in> set magic_table. \<forall>y \<in> set magic_table. has_prefix (snd x) (snd y) \<longrightarrow> x = y"
  by code_simp

lemma magic_table_lengths: "\<forall>x \<in> set magic_table. 2 \<le> length (snd x) \<and> length (snd x) \<le> 20"
  by (simp add: magic_table_def magic_defs)

lemma magic_table_lzma: "\<forall>x \<in> set magic_table. hd (snd x) \<noteq> 0x5d"
  by (simp add: magic_table_def magic_defs str_def)

lemma starts_as_unique:
  assumes "starts_as s f" "starts_as s g"
  shows "f = g"
proof -
  obtain x y where x: "x \<in> set magic_table" "fst x = f" "has_prefix s (snd x)"
    and y: "y \<in> set magic_table" "fst y = g" "has_prefix s (snd y)"
    using assms by (auto simp only: starts_as_def)
  have "has_prefix (snd y) (snd x) \<or> has_prefix (snd x) (snd y)"
    using has_prefix_chain x(3) y(3) nat_le_linear by blast
  with magic_table_prefix_free x(1) y(1) have "x = y" by blast
  with x(2) y(2) show ?thesis by simp
qed

lemma lzma_not_magic: "lzma_match buf \<Longrightarrow> \<not> starts_as (buf @ spare) f"
proof
  assume l: "lzma_match buf" and "starts_as (buf @ spare) f"
  then obtain x where x: "x \<in> set magic_table" "has_prefix (buf @ spare) (snd x)"
    by (auto simp: starts_as_def)
  from x(1) magic_table_lengths have "snd x \<noteq> []" by auto
  moreover from l have "buf \<noteq> []" "hd buf = 0x5d"
    by (cases buf; auto simp: lzma_match_def)+
  ultimately have "hd (snd x) = 0x5d"
    using x(2) by (cases buf; cases "snd x") auto
  with x(1) magic_table_lzma show False by auto
qed

lemma detected_unique: "detected buf spare f \<Longrightarrow> detected buf spare g \<Longrightarrow> f = g"
  using starts_as_unique lzma_not_magic by (auto simp: detected_def)

lemma checked_match_eq:
  "checked_match buf spare p =
     (if length p \<le> length buf + length spare then Inr (has_prefix (buf @ spare) p)
      else Inl (Panic SliceOutOfRange))"
  by (auto simp: checked_match_def go_slice_def has_prefix_def)

lemma checked_any_Inr:
  "\<forall>p \<in> set ps. length p \<le> length buf + length spare \<Longrightarrow>
   checked_any buf spare ps = Inr (\<exists>p \<in> set ps. has_prefix (buf @ spare) p)"
  by (induction ps) (simp_all add: checked_match_eq)

lemma magic_lengths:
  "length CHROMEOS_MAGIC = 8" "length BOOT_MAGIC = 8" "length VENDOR_BOOT_MAGIC = 8"
  "length GZIP1_MAGIC = 2" "length GZIP2_MAGIC = 2" "length LZOP_MAGIC = 4" "length XZ_MAGIC = 5"
  "length BZIP_MAGIC = 3" "length LZ41_MAGIC = 4" "length LZ42_MAGIC = 4" "length LZ4_LEG_MAGIC = 4"
  "length MTK_MAGIC = 4" "length DTB_MAGIC = 4" "length DHTB_MAGIC = 8" "length TEGRABLOB_MAGIC = 20"
  by (simp_all add: magic_defs)

lemma CheckFmt_short:
  "length buf + length spare < 8 \<Longrightarrow> CheckFmt buf spare = Inl (Panic SliceOutOfRange)"
  by (simp add: CheckFmt_def checked_match_eq magic_lengths)

lemma detected_iff:
  "(\<exists>g. detected buf spare g) \<longleftrightarrow>
     lzma_match buf \<or> (\<exists>x \<in> set magic_table. has_prefix (buf @ spare) (snd x))"
  by (auto simp: detected_def starts_as_def)

lemma detectedI:
  "(f, p) \<in> set magic_table \<Longrightarrow> has_prefix (buf @ spare) p \<Longrightarrow> detected buf spare f"
  by (force simp: detected_def starts_as_def)

lemma detectedI_lzma: "lzma_match buf \<Longrightarrow> detected buf spare LZMA"
  by (simp add: detected_def)

fun check_table :: "bytes \<Rightarrow> bytes \<Rightarrow> (format_t \<times> bytes) list \<Rightarrow> format_t go \<Rightarrow> format_t go" where
  "check_table buf spare [] k = k"
| "check_table buf spare ((f, p) # t) k =
     go_bind (checked_match buf spare p) (\<lambda>b. if b then Inr f else check_table buf spare t k)"

lemma checked_any_2:
  "go_bind (checked_any buf spare [p, q]) (\<lambda>b. if b then Inr f else k) =
   check_table buf spare [(f, p), (f, q)] k"
  by (cases "checked_match buf spare p"; cases "checked_match buf spare q") auto

lemma checked_any_1:
  "go_bind (checked_any buf spare [p]) (\<lambda>b. if b then Inr f else k) = check_table buf spare [(f, p)] k"
  by (cases "checked_match buf spare p") auto

lemma check_table_append:
  "check_table buf spare (t @ t') k = check_table buf spare t (check_table buf spare t' k)"
  by (induction t) (auto simp: go_bind_def split: sum.split)

definition last_checks :: "bytes \<Rightarrow> format_t go" where
  "last_checks buf = (if zimage_match buf then Inr ZIMAGE else Inr UNKNOWN)"

lemma CheckFmt_table:
  "CheckFmt buf spare =
     check_table buf spare (take 7 magic_table)
       (if lzma_match buf then Inr LZMA else
          check_table buf spare (drop 7 magic_table) (last_checks buf))"
  unfolding CheckFmt_def checked_any_1 checked_any_2
  by (simp add: magic_table_def last_checks_def del: check_table.simps cong: if_cong flip: check_table_append)

lemma check_table_fits:
  "\<forall>x \<in> set t. length (snd x) \<le> length buf + length spare \<Longrightarrow>
   check_table buf spare t k =
     (case find (\<lambda>x. has_prefix (buf @ spare) (snd x)) t of Some x \<Rightarrow> Inr (fst x) | None \<Rightarrow> k)"
  by (induction t) (auto simp: checked_match_eq)

lemma CheckFmt_result:
  assumes "8 \<le> length buf + length spare"
  shows "case CheckFmt buf spare of
      Inr f \<Rightarrow> detected buf spare f \<or>
        (\<nexists>g. detected buf spare g) \<and> f = (if zimage_match buf then ZIMAGE else UNKNOWN)
        \<and> 20 \<le> length buf + length spare
    | Inl e \<Rightarrow> e = Panic SliceOutOfRange \<and> (\<nexists>g. detected buf spare g) \<and> length buf + length spare < 20"
proof -
  let ?hp = "\<lambda>x. has_prefix (buf @ spare) (snd x)"
  define small where "small = take 7 (drop 7 magic_table)"
  have parts: "magic_table = take 7 magic_table @ small @ [(BLOB, TEGRABLOB_MAGIC)]"
    by (simp add: small_def magic_table_def)
  have fits: "\<forall>x \<in> set (take 7 magic_table @ small). length (snd x) \<le> length buf + length spare"
    using assms by (auto simp: small_def magic_table_def magic_lengths)
  have drop7: "drop 7 magic_table = small @ [(BLOB, TEGRABLOB_MAGIC)]"
    by (simp add: small_def magic_table_def)
  have big: "length buf + length spare < 20 \<Longrightarrow> \<not> has_prefix (buf @ spare) TEGRABLOB_MAGIC"
    by (auto dest: has_prefix_length simp: magic_lengths)
  have none: "(\<nexists>g. detected buf spare g) \<longleftrightarrow> \<not> lzma_match buf \<and> find ?hp (take 7 magic_table) = None
    \<and> find ?hp small = None \<and> \<not> has_prefix (buf @ spare) TEGRABLOB_MAGIC"
    unfolding detected_iff by (subst parts) (auto simp: find_None_iff ball_Un)
  have hit: "detected buf spare (fst x)" if "find ?hp t = Some x" "set t \<subseteq> set magic_table" for t x
  proof -
    from that(1) have "x \<in> set t" "?hp x" by (auto simp: find_Some_iff)
    with that(2) have "x \<in> set magic_table" "?hp x" by (auto dest: subsetD)
    then show ?thesis using detectedI [of "fst x" "snd x"] by simp
  qed
  have sub: "set (take 7 magic_table) \<subseteq> set magic_table" "set small \<subseteq> set magic_table"
    by (auto simp: small_def dest: in_set_takeD in_set_dropD)
  have first: "check_table buf spare (take 7 magic_table) k =
      (case find ?hp (take 7 magic_table) of Some x \<Rightarrow> Inr (fst x) | None \<Rightarrow> k)" for k
    using fits by (intro check_table_fits) auto
  have second: "check_table buf spare small k =
      (case find ?hp small of Some x \<Rightarrow> Inr (fst x) | None \<Rightarrow> k)" for k
    using fits by (intro check_table_fits) auto
  note table = CheckFmt_table drop7 check_table_append first second
  show ?thesis
  proof (cases "find ?hp (take 7 magic_table)")
    case (Some x)
    then show ?thesis using hit [OF Some sub(1)] by (simp add: table)
  next
    case None
    note n1 = None
    show ?thesis
    proof (cases "lzma_match buf")
      case True
      then show ?thesis using n1 by (simp add: table detectedI_lzma)
    next
      case False
      note n2 = False
      show ?thesis
      proof (cases "find ?hp small")
        case (Some x)
        then show ?thesis using n1 n2 hit [OF Some sub(2)] by (simp add: table)
      next
        case None
        have tegra: "detected buf spare BLOB" if "has_prefix (buf @ spare) TEGRABLOB_MAGIC"
          using that by (intro detectedI) (simp_all add: magic_table_def)
        show ?thesis
          using n1 n2 None big tegra unfolding none
          by (simp add: table checked_match_eq magic_lengths last_checks_def)
      qed
    qed
  qed
qed

lemma detected_fits: "detected buf spare f \<Longrightarrow> 20 \<le> length buf + length spare \<or> f \<noteq> BLOB"
  by (auto simp: detected_def starts_as_def magic_table_def magic_lengths dest!: has_prefix_length)

text \<open>
  C13. \<open>CheckFmt\<close> in full. With a capacity below 8 it panics. Otherwise it answers the one
  format whose magic number the data starts with (or LZMA by its own test); when there is
  none it answers \<open>ZIMAGE\<close> or \<open>UNKNOWN\<close>, but only if the capacity is at least 20: shorter
  unrecognised data panics in the \<open>TEGRABLOB\<close> test.
\<close>

theorem CheckFmt_spec:
  "(\<forall>f. CheckFmt buf spare = Inr f \<longleftrightarrow>
      8 \<le> length buf + length spare \<and>
      (detected buf spare f \<or>
       (\<nexists>g. detected buf spare g) \<and> 20 \<le> length buf + length spare
         \<and> f = (if zimage_match buf then ZIMAGE else UNKNOWN)))
   \<and> (\<forall>e. CheckFmt buf spare = Inl e \<longleftrightarrow>
      e = Panic SliceOutOfRange \<and>
      (length buf + length spare < 8 \<or>
       length buf + length spare < 20 \<and> (\<nexists>g. detected buf spare g)))"
proof (cases "8 \<le> length buf + length spare")
  case True
  note res = CheckFmt_result [OF True]
  show ?thesis
  proof (cases "CheckFmt buf spare")
    case (Inl e)
    with res True show ?thesis by auto
  next
    case (Inr f)
    show ?thesis
    proof (cases "\<exists>g. detected buf spare g")
      case True
      with Inr res have "detected buf spare f" by auto
      moreover from this have "detected buf spare g \<longleftrightarrow> g = f" for g
        using detected_unique [of buf spare] by blast
      ultimately show ?thesis using Inr \<open>8 \<le> length buf + length spare\<close> by auto
    next
      case False
      with Inr res True show ?thesis by auto
    qed
  qed
next
  case False
  then show ?thesis by (auto simp: CheckFmt_short)
qed

text \<open>
  The name table and the format table are inverse to each other exactly on the
  compression formats: \<open>Name2Fmt\<close> answers a compression format for its own name only, and
  \<open>UNKNOWN\<close> for every other string. In particular the names \<open>lzop\<close>, \<open>dtb\<close>, \<open>zimage\<close> and
  \<open>raw\<close> that \<open>Fmt2Name\<close> prints are not read back.
\<close>

theorem Name2Fmt_iff:
  "Name2Fmt name = f \<longleftrightarrow>
     COMPRESSED f \<and> name = Fmt2Name f \<or> f = UNKNOWN \<and> (\<nexists>g. COMPRESSED g \<and> name = Fmt2Name g)"
proof (cases "\<exists>g. COMPRESSED g \<and> name = Fmt2Name g")
  case True
  then obtain g where g: "COMPRESSED g" "name = Fmt2Name g" by blast
  then have n: "Name2Fmt name = g" by (simp only: Name2Fmt_Fmt2Name)
  show ?thesis
  proof
    assume "Name2Fmt name = f"
    with n g show "COMPRESSED f \<and> name = Fmt2Name f
      \<or> f = UNKNOWN \<and> (\<nexists>g. COMPRESSED g \<and> name = Fmt2Name g)" by blast
  next
    assume "COMPRESSED f \<and> name = Fmt2Name f
      \<or> f = UNKNOWN \<and> (\<nexists>g. COMPRESSED g \<and> name = Fmt2Name g)"
    with g show "Name2Fmt name = f" by (metis Name2Fmt_Fmt2Name)
  qed
next
  case False
  then have "Name2Fmt name = UNKNOWN" using Name2Fmt_range by blast
  with False show ?thesis by auto
qed

lemma CheckFmt_long: "20 \<le> length buf \<Longrightarrow> \<exists>f. CheckFmt buf spare = Inr f"
  using CheckFmt_result [of buf spare] by (cases "CheckFmt buf spare") auto

lemma CheckFmt_detected:
  assumes "detected buf spare f" "8 \<le> length buf + length spare"
  shows "CheckFmt buf spare = Inr f"
proof (cases "CheckFmt buf spare")
  case (Inl e)
  with CheckFmt_result [OF assms(2)] have "\<nexists>g. detected buf spare g" by simp
  with assms(1) show ?thesis by blast
next
  case (Inr g)
  with CheckFmt_result [OF assms(2)] assms(1) have "detected buf spare g" by auto
  with assms(1) have "g = f" by (rule detected_unique [rotated])
  with Inr show ?thesis by simp
qed

end
