(* ===== verification/Cpio_Codec.thy ===== *)
theory Cpio_Codec
  imports Go_Binary Go_Strings Align
begin

text \<open>
  The archive format of \<open>cpio.go\<close>: the 110 byte header, the entry and archive structures,
  \<open>x8u\<close>, the parser \<open>LoadFromData\<close> and the writer \<open>Dump\<close>. The parser is a loop over a
  position; one iteration is \<open>load_step\<close>, which either stops with a result or moves on.
  The archive it fills is returned in every case, because the method has already changed
  its receiver when it returns an error.
\<close>

section \<open>Structures\<close>

record CpioHeader =
  Magic :: bytes
  Ino :: bytes
  HMode :: bytes
  HUid :: bytes
  HGid :: bytes
  Nlink :: bytes
  Mtime :: bytes
  Filesize :: bytes
  Devmajor :: bytes
  Devminor :: bytes
  Rdevmajor :: bytes
  Rdevminor :: bytes
  Namesize :: bytes
  Check :: bytes

record CpioEntry =
  Mode :: u32
  Uid :: u32
  Gid :: u32
  RDevMajor :: u32
  RDevMinor :: u32
  Data :: bytes

record Cpio =
  Entries :: "bytes \<rightharpoonup> CpioEntry"
  Keys :: "bytes list"

definition NewCpio :: Cpio where
  "NewCpio = \<lparr>Entries = Map.empty, Keys = []\<rparr>"

text \<open>A map read of an absent key yields the zero entry.\<close>

definition zero_entry :: CpioEntry where
  "zero_entry = \<lparr>Mode = 0, Uid = 0, Gid = 0, RDevMajor = 0, RDevMinor = 0, Data = []\<rparr>"

definition entry_at :: "Cpio \<Rightarrow> bytes \<Rightarrow> CpioEntry" where
  "entry_at c k = (case Entries c k of Some e \<Rightarrow> e | None \<Rightarrow> zero_entry)"

definition get_CpioHeader :: "bytes \<Rightarrow> (CpioHeader \<times> bytes) option" where
  "get_CpioHeader bs0 = do {
     (mg, bs) \<leftarrow> get_bytes 6 bs0;
     (ino, bs) \<leftarrow> get_bytes 8 bs;
     (md, bs) \<leftarrow> get_bytes 8 bs;
     (uid, bs) \<leftarrow> get_bytes 8 bs;
     (gid, bs) \<leftarrow> get_bytes 8 bs;
     (nl, bs) \<leftarrow> get_bytes 8 bs;
     (mt, bs) \<leftarrow> get_bytes 8 bs;
     (fs, bs) \<leftarrow> get_bytes 8 bs;
     (dmaj, bs) \<leftarrow> get_bytes 8 bs;
     (dmin, bs) \<leftarrow> get_bytes 8 bs;
     (rmaj, bs) \<leftarrow> get_bytes 8 bs;
     (rmin, bs) \<leftarrow> get_bytes 8 bs;
     (ns, bs) \<leftarrow> get_bytes 8 bs;
     (ck, bs) \<leftarrow> get_bytes 8 bs;
     Some (\<lparr>Magic = mg, Ino = ino, HMode = md, HUid = uid, HGid = gid, Nlink = nl, Mtime = mt,
       Filesize = fs, Devmajor = dmaj, Devminor = dmin, Rdevmajor = rmaj, Rdevminor = rmin,
       Namesize = ns, Check = ck\<rparr>, bs)
   }"

definition cpio_header_bytes :: "CpioHeader \<Rightarrow> bytes" where
  "cpio_header_bytes h =
     Magic h @ Ino h @ HMode h @ HUid h @ HGid h @ Nlink h @ Mtime h @ Filesize h @ Devmajor h
     @ Devminor h @ Rdevmajor h @ Rdevminor h @ Namesize h @ Check h"

definition cpio_header_ok :: "CpioHeader \<Rightarrow> bool" where
  "cpio_header_ok h \<longleftrightarrow> length (Magic h) = 6
     \<and> (\<forall>f \<in> set [Ino, HMode, HUid, HGid, Nlink, Mtime, Filesize, Devmajor, Devminor, Rdevmajor,
          Rdevminor, Namesize, Check]. length (f h) = 8)"

interpretation cpio_header: codec cpio_header_bytes get_CpioHeader 110 cpio_header_ok
proof
  fix h rest
  assume "cpio_header_ok h"
  then show "get_CpioHeader (cpio_header_bytes h @ rest) = Some (h, rest)"
    by (simp add: cpio_header_ok_def cpio_header_bytes_def get_CpioHeader_def)
next
  fix bs h rest
  assume "get_CpioHeader bs = Some (h, rest)"
  then show "cpio_header_ok h \<and> bs = cpio_header_bytes h @ rest"
    by (auto simp: cpio_header_ok_def cpio_header_bytes_def get_CpioHeader_def bind_eq_Some_conv
        dest!: field_dec_sound)
next
  fix h
  assume "cpio_header_ok h"
  then show "length (cpio_header_bytes h) = 110"
    by (simp add: cpio_header_ok_def cpio_header_bytes_def)
next
  fix bs :: bytes
  assume "110 \<le> length bs"
  then show "\<exists>r. get_CpioHeader bs = Some r"
    by (simp add: get_CpioHeader_def field_dec_total)
qed

section \<open>Parsing\<close>

text \<open>
  The error of \<open>binary.Read\<close> is ignored; were it to fail, the header would stay zero and
  the magic check would reject it, which is the \<open>None\<close> branch below.
\<close>

definition x8u :: "bytes \<Rightarrow> u32 go" where
  "x8u x =
     (if length x \<noteq> 8 then Inl (Err BadCpioHeader)
      else go_bind (ParseUint x 16 32) (\<lambda>n. Inr (of_nat n)))"

text \<open>The closure \<open>xx8u\<close> of the parser drops the error; \<open>x8u\<close> returns 0 with it.\<close>

definition xx8u :: "bytes \<Rightarrow> u32" where
  "xx8u x = (case x8u x of Inl _ \<Rightarrow> 0 | Inr u \<Rightarrow> u)"

definition cpio_magic :: bytes where
  "cpio_magic = str ''070701''"

definition trailer_name :: bytes where
  "trailer_name = str ''TRAILER!!!''"

definition put_entry :: "bytes \<Rightarrow> CpioEntry \<Rightarrow> Cpio \<Rightarrow> Cpio" where
  "put_entry name e c = c\<lparr>Entries := (Entries c)(name \<mapsto> e), Keys := Keys c @ [name]\<rparr>"

definition entry_of_header :: "CpioHeader \<Rightarrow> bytes \<Rightarrow> CpioEntry" where
  "entry_of_header h d =
     \<lparr>Mode = xx8u (HMode h), Uid = xx8u (HUid h), Gid = xx8u (HGid h),
      RDevMajor = xx8u (Rdevmajor h), RDevMinor = xx8u (Rdevminor h), Data = d\<rparr>"

definition load_body :: "bytes \<Rightarrow> nat \<Rightarrow> Cpio \<Rightarrow> CpioHeader \<Rightarrow> bytes \<Rightarrow> Cpio \<times> (unit go + nat)" where
  "load_body data pos c h name =
     (if name = str ''.'' \<or> name = str ''..'' then (c, Inr pos)
      else if name = trailer_name then
        (case go_slice data pos (length data) of
           Inl e \<Rightarrow> (c, Inl (Inl e))
         | Inr rest \<Rightarrow>
             (case index_of rest cpio_magic of
                None \<Rightarrow> (c, Inl (Inr ()))
              | Some i \<Rightarrow> (c, Inr (pos + i))))
      else
        (let file_sz = unat (xx8u (Filesize h)) in
         case go_slice data pos (pos + file_sz) of
           Inl e \<Rightarrow> (c, Inl (Inl e))
         | Inr d \<Rightarrow> (put_entry name (entry_of_header h d) c, Inr (align4 (pos + file_sz)))))"

definition load_step :: "bytes \<Rightarrow> nat \<Rightarrow> Cpio \<Rightarrow> Cpio \<times> (unit go + nat)" where
  "load_step data pos c =
     (case go_slice data pos (pos + 110) of
        Inl e \<Rightarrow> (c, Inl (Inl e))
      | Inr hb \<Rightarrow>
          (case get_CpioHeader hb of
             None \<Rightarrow> (c, Inl (Inl (Err InvalidCpioMagic)))
           | Some (h, _) \<Rightarrow>
               if Magic h \<noteq> cpio_magic then (c, Inl (Inl (Err InvalidCpioMagic)))
               else
                 (case x8u (Namesize h) of
                    Inl e \<Rightarrow> (c, Inl (Inl e))
                  | Inr name_sz \<Rightarrow>
                      (let pos = pos + 110 in
                       case go_slice data pos (pos + unat name_sz) of
                         Inl e \<Rightarrow> (c, Inl (Inl e))
                       | Inr nm \<Rightarrow>
                           load_body data (align4 (pos + unat name_sz)) c h (trim_right nm [0])))))"

lemma load_step_progress: "load_step data pos c = (c', Inr pos') \<Longrightarrow> pos + 110 \<le> pos'"
proof -
  have a: "x \<le> y \<Longrightarrow> x \<le> align4 (y + z)" for x y z :: nat
    using align4_ge [of "y + z"] by linarith
  assume "load_step data pos c = (c', Inr pos')"
  then show ?thesis
    by (auto simp: load_step_def load_body_def Let_def a le_trans [OF a align4_ge] trans_le_add1
        split: sum.splits option.splits if_splits)
qed

function load_loop :: "bytes \<Rightarrow> nat \<Rightarrow> Cpio \<Rightarrow> Cpio \<times> unit go" where
  "load_loop data pos c =
     (if pos < length data then
        (case load_step data pos c of
           (c', Inl r) \<Rightarrow> (c', r)
         | (c', Inr pos') \<Rightarrow> load_loop data pos' c')
      else (c, Inr ()))"
  by pat_completeness auto
termination
  by (relation "measure (\<lambda>(data, pos, c). length data - pos)") (auto dest!: load_step_progress [OF sym])

declare load_loop.simps [simp del]

definition LoadFromData :: "Cpio \<Rightarrow> bytes \<Rightarrow> Cpio \<times> unit go" where
  "LoadFromData c data = load_loop data 0 c"

section \<open>Writing\<close>

text \<open>
  \<open>dump_header\<close> is the \<open>Sprintf\<close> of 13 numbers after the magic. \<open>write_zeros pos\<close> pads the
  file from \<open>pos\<close> to a multiple of 4. \<open>dump_loop\<close> is the loop over \<open>Keys\<close> with the file
  position and the inode counter; \<open>dump_bytes\<close> adds the trailer. Writes to the created
  file are taken to succeed, so the position is the number of bytes written.
\<close>

definition dump_header :: "nat list \<Rightarrow> bytes" where
  "dump_header nums = cpio_magic @ concat (map hex8 nums)"

definition write_zeros :: "nat \<Rightarrow> bytes" where
  "write_zeros pos = replicate (align4 pos - pos) 0"

definition dump_entry :: "nat \<Rightarrow> nat \<Rightarrow> bytes \<Rightarrow> CpioEntry \<Rightarrow> bytes" where
  "dump_entry pos inode name e =
     (let header = dump_header
            [inode, unat (Mode e), unat (Uid e), unat (Gid e), 1, 0, length (Data e), 0, 0,
             unat (RDevMajor e), unat (RDevMinor e), length name + 1, 0];
          p1 = pos + length header + length name + 1;
          p2 = align4 p1 + length (Data e)
      in header @ name @ [0] @ write_zeros p1 @ Data e @ write_zeros p2)"

fun dump_loop :: "Cpio \<Rightarrow> bytes list \<Rightarrow> nat \<Rightarrow> nat \<Rightarrow> bytes \<times> nat \<times> nat" where
  "dump_loop c [] pos inode = ([], pos, inode)"
| "dump_loop c (name # names) pos inode =
     (let out = dump_entry pos inode name (entry_at c name);
          (rest, pos', inode') = dump_loop c names (pos + length out) (inode + 1)
      in (out @ rest, pos', inode'))"

definition dump_trailer :: "nat \<Rightarrow> nat \<Rightarrow> bytes" where
  "dump_trailer pos inode =
     (let header = dump_header [inode, 493, 0, 0, 1, 0, 0, 0, 0, 0, 0, 11, 0];
          p = pos + length header + 11
      in header @ trailer_name @ [0] @ write_zeros p)"

definition dump_bytes :: "Cpio \<Rightarrow> bytes" where
  "dump_bytes c =
     (let (out, pos, inode) = dump_loop c (Keys c) 0 300000
      in out @ dump_trailer pos inode)"

section \<open>The parser reads back what the writer wrote\<close>

lemma length_write_zeros [simp]: "length (write_zeros p) = align4 p - p"
  by (simp add: write_zeros_def)

lemma length_dump_header: "\<forall>n \<in> set ns. n < 2 ^ 32 \<Longrightarrow> length (dump_header ns) = 6 + 8 * length ns"
  by (induction ns) (simp_all add: dump_header_def cpio_magic_def length_hex8)

lemma x8u_hex8: "n < 2 ^ 32 \<Longrightarrow> x8u (hex8 n) = Inr (of_nat n)"
  by (simp add: x8u_def length_hex8 ParseUint_hex8)

lemma xx8u_hex8: "n < 2 ^ 32 \<Longrightarrow> xx8u (hex8 n) = of_nat n"
  by (simp add: xx8u_def x8u_hex8)

definition entry_fits :: "nat \<Rightarrow> bytes \<Rightarrow> CpioEntry \<Rightarrow> bool" where
  "entry_fits inode name e \<longleftrightarrow> inode < 2 ^ 32 \<and> length name + 1 < 2 ^ 32 \<and> length (Data e) < 2 ^ 32"

definition plain_name :: "bytes \<Rightarrow> bool" where
  "plain_name name \<longleftrightarrow> name \<noteq> str ''.'' \<and> name \<noteq> str ''..'' \<and> name \<noteq> trailer_name
     \<and> (name = [] \<or> last name \<noteq> 0)"

definition dumped_header :: "nat list \<Rightarrow> CpioHeader" where
  "dumped_header ns = \<lparr>Magic = cpio_magic, Ino = hex8 (ns ! 0), HMode = hex8 (ns ! 1),
     HUid = hex8 (ns ! 2), HGid = hex8 (ns ! 3), Nlink = hex8 (ns ! 4), Mtime = hex8 (ns ! 5),
     Filesize = hex8 (ns ! 6), Devmajor = hex8 (ns ! 7), Devminor = hex8 (ns ! 8),
     Rdevmajor = hex8 (ns ! 9), Rdevminor = hex8 (ns ! 10), Namesize = hex8 (ns ! 11),
     Check = hex8 (ns ! 12)\<rparr>"

lemma length_13: "length ns = 13 \<Longrightarrow>
  ns = [ns ! 0, ns ! 1, ns ! 2, ns ! 3, ns ! 4, ns ! 5, ns ! 6, ns ! 7, ns ! 8, ns ! 9, ns ! 10, ns ! 11, ns ! 12]"
  by (auto simp: numeral_eq_Suc length_Suc_conv)

lemma get_dumped_header:
  assumes "length ns = 13" "\<forall>n \<in> set ns. n < 2 ^ 32"
  shows "get_CpioHeader (dump_header ns) = Some (dumped_header ns, [])"
proof -
  have ok: "cpio_header_ok (dumped_header ns)"
    using assms by (simp add: cpio_header_ok_def dumped_header_def cpio_magic_def length_hex8)
  have "dump_header ns = cpio_header_bytes (dumped_header ns)"
    by (subst length_13 [OF assms(1)])
      (simp add: dump_header_def cpio_header_bytes_def dumped_header_def)
  with cpio_header.dec_exact [OF ok] show ?thesis by simp
qed

definition entry_nums :: "nat \<Rightarrow> bytes \<Rightarrow> CpioEntry \<Rightarrow> nat list" where
  "entry_nums inode name e =
     [inode, unat (Mode e), unat (Uid e), unat (Gid e), 1, 0, length (Data e), 0, 0,
      unat (RDevMajor e), unat (RDevMinor e), length name + 1, 0]"

lemma unat_lt_u32 [simp]: "unat (w :: u32) < 4294967296"
  using unsigned_less [of w] by simp

lemma entry_nums_fit: "entry_fits inode name e \<Longrightarrow> \<forall>n \<in> set (entry_nums inode name e). n < 2 ^ 32"
  by (simp add: entry_nums_def entry_fits_def)

lemma length_entry_nums [simp]: "length (entry_nums inode name e) = 13"
  by (simp add: entry_nums_def)

lemma length_entry_header:
  "entry_fits inode name e \<Longrightarrow> length (dump_header (entry_nums inode name e)) = 110"
  using length_dump_header [OF entry_nums_fit] by simp

lemma dump_entry_eq:
  assumes "entry_fits inode name e"
  shows "dump_entry pos inode name e =
    dump_header (entry_nums inode name e) @ (name @ [0]) @ write_zeros (pos + 111 + length name)
      @ Data e @ write_zeros (align4 (pos + 111 + length name) + length (Data e))"
  using length_entry_header [OF assms]
  by (simp add: dump_entry_def entry_nums_def Let_def ac_simps)

lemma length_dump_entry:
  assumes "entry_fits inode name e"
  shows "pos + length (dump_entry pos inode name e) =
    align4 (align4 (pos + 111 + length name) + length (Data e))"
proof -
  define p1 p2 where "p1 = pos + 111 + length name" and "p2 = align4 p1 + length (Data e)"
  have "length (dump_entry pos inode name e) =
      110 + (length name + 1) + (align4 p1 - p1) + length (Data e) + (align4 p2 - p2)"
    unfolding dump_entry_eq [OF assms] length_append length_write_zeros length_entry_header [OF assms]
      p1_def p2_def list.size by linarith
  moreover have "p1 \<le> align4 p1" "p2 \<le> align4 p2" by simp_all
  ultimately have "pos + length (dump_entry pos inode name e) = align4 p2"
    unfolding p1_def p2_def by linarith
  then show ?thesis by (simp only: p1_def p2_def)
qed

lemma trim_name: "name = [] \<or> last name \<noteq> 0 \<Longrightarrow> trim_right (name @ [0]) [0] = name"
  using trim_right_snoc_in [of 0 "[0]" name] trim_right_id [of name "[0]"] by simp

lemma load_step_named:
  assumes data: "data = pre @ dump_header ns @ (name @ [0]) @ rest"
    and pos: "length pre = pos"
    and ns: "length ns = 13" "\<forall>n \<in> set ns. n < 2 ^ 32" "ns ! 11 = length name + 1"
    and name: "name = [] \<or> last name \<noteq> 0"
  shows "load_step data pos c = load_body data (align4 (pos + 111 + length name)) c (dumped_header ns) name"
proof -
  have len: "length (dump_header ns) = 110" using length_dump_header [OF ns(2)] ns(1) by simp
  have "go_slice data pos (pos + 110) = Inr (dump_header ns)"
    by (rule go_slice_at [OF data pos len])
  moreover have small: "length name + 1 < 2 ^ 32"
  proof -
    have "ns ! 11 \<in> set ns" using ns(1) by simp
    with ns(2) have "ns ! 11 < 2 ^ 32" by blast
    with ns(3) show ?thesis by simp
  qed
  moreover have "x8u (Namesize (dumped_header ns)) = Inr (of_nat (length name + 1))"
    using x8u_hex8 [OF small] by (simp only: dumped_header_def CpioHeader.simps ns(3))
  moreover have "unat (of_nat (length name + 1) :: u32) = length name + 1"
    using small by (intro unat_of_nat_small) simp
  moreover have "go_slice data (pos + 110) (pos + 110 + (length name + 1)) = Inr (name @ [0])"
    by (rule go_slice_at [where a = "pre @ dump_header ns" and c = rest]) (simp_all add: data pos len)
  ultimately show ?thesis
    using get_dumped_header [OF ns(1,2)] trim_name [OF name]
    by (simp add: load_step_def dumped_header_def Let_def ac_simps)
qed

lemma load_step_dumped:
  assumes data: "data = pre @ dump_entry pos inode name e @ post" and pos: "length pre = pos"
    and fits: "entry_fits inode name e" and plain: "plain_name name"
  shows "load_step data pos c = (put_entry name e c, Inr (pos + length (dump_entry pos inode name e)))"
proof -
  let ?ns = "entry_nums inode name e"
  let ?p = "align4 (pos + 111 + length name)"
  let ?z = "write_zeros (pos + 111 + length name)"
  let ?z2 = "write_zeros (?p + length (Data e))"
  have eq: "data = pre @ dump_header ?ns @ (name @ [0]) @ (?z @ Data e @ ?z2 @ post)"
    by (simp add: data dump_entry_eq [OF fits])
  have pad: "pos + (111 + (align4 (pos + 111 + length name) - (pos + 111))) = align4 (pos + 111 + length name)"
    using align4_ge [of "pos + 111 + length name"] by linarith
  have slice: "go_slice data ?p (?p + length (Data e)) = Inr (Data e)"
    using pos length_entry_header [OF fits] pad
    by (intro go_slice_at [where a = "pre @ dump_header ?ns @ (name @ [0]) @ ?z" and c = "?z2 @ post"])
      (simp_all add: eq)
  have "xx8u (Filesize (dumped_header ?ns)) = of_nat (length (Data e))"
    using fits by (simp add: dumped_header_def entry_nums_def xx8u_hex8 entry_fits_def)
  then have size: "unat (xx8u (Filesize (dumped_header ?ns))) = length (Data e)"
    using fits by (simp add: unat_of_nat_small entry_fits_def)
  have entry: "entry_of_header (dumped_header ?ns) (Data e) = e"
    by (simp add: entry_of_header_def dumped_header_def entry_nums_def xx8u_hex8)
  have "load_step data pos c = load_body data ?p c (dumped_header ?ns) name"
    using eq pos entry_nums_fit [OF fits] plain
    by (intro load_step_named) (auto simp: entry_nums_def plain_name_def)
  also have "\<dots> = (put_entry name e c, Inr (align4 (?p + length (Data e))))"
    using plain slice size entry by (simp add: load_body_def plain_name_def Let_def)
  finally show ?thesis using length_dump_entry [OF fits, of pos] by simp
qed

fun put_all :: "(bytes \<Rightarrow> CpioEntry) \<Rightarrow> bytes list \<Rightarrow> Cpio \<Rightarrow> Cpio" where
  "put_all f [] c = c"
| "put_all f (k # ks) c = put_all f ks (put_entry k (f k) c)"

lemma put_all_eq:
  "put_all f ks c =
     c\<lparr>Entries := (\<lambda>k. if k \<in> set ks then Some (f k) else Entries c k), Keys := Keys c @ ks\<rparr>"
  by (induction ks arbitrary: c) (auto simp: put_entry_def fun_eq_iff)

lemma load_loop_step:
  "pos < length data \<Longrightarrow> load_step data pos c = (c', Inr pos') \<Longrightarrow>
   load_loop data pos c = load_loop data pos' c'"
  by (subst load_loop.simps) simp

lemma load_loop_dumped:
  assumes "dump_loop c0 names pos inode = (out, pos', inode')"
    and "data = pre @ out @ post" "length pre = pos"
    and "\<forall>k \<in> set names. plain_name k \<and> entry_fits (inode + length names) k (entry_at c0 k)"
  shows "load_loop data pos c = load_loop data pos' (put_all (entry_at c0) names c)
    \<and> pos' = pos + length out \<and> inode' = inode + length names"
  using assms
proof (induction names arbitrary: pos inode out pre c)
  case Nil
  then show ?case by simp
next
  case (Cons k ks)
  let ?e = "entry_at c0 k"
  let ?d = "dump_entry pos inode k ?e"
  obtain out' where rest: "dump_loop c0 ks (pos + length ?d) (inode + 1) = (out', pos', inode')"
      and out: "out = ?d @ out'"
    using Cons.prems(1) by (auto simp: Let_def split: prod.splits)
  have fits: "entry_fits inode k ?e" and plain: "plain_name k"
    using Cons.prems(4) by (auto simp: entry_fits_def)
  have "0 < length ?d"
    using dump_entry_eq [OF fits] by simp
  then have "pos < length data" using Cons.prems(2,3) out by simp
  moreover have "load_step data pos c = (put_entry k ?e c, Inr (pos + length ?d))"
    using Cons.prems(2,3) out by (intro load_step_dumped [OF _ _ fits plain]) simp_all
  ultimately have step: "load_loop data pos c = load_loop data (pos + length ?d) (put_entry k ?e c)"
    by (rule load_loop_step)
  have "load_loop data (pos + length ?d) (put_entry k ?e c)
      = load_loop data pos' (put_all (entry_at c0) ks (put_entry k ?e c))
    \<and> pos' = pos + length ?d + length out' \<and> inode' = inode + 1 + length ks"
    using Cons.prems(2-4) out
    by (intro Cons.IH [OF rest, of "pre @ ?d"]) (simp_all add: ac_simps)
  with step out show ?case by (simp add: ac_simps)
qed

lemma load_step_trailer:
  assumes "data = pre @ dump_trailer pos inode" "length pre = pos" "inode < 2 ^ 32"
  shows "load_step data pos c = (c, Inl (Inr ()))"
proof -
  let ?ns = "[inode, 493, 0, 0, 1, 0, 0, 0, 0, 0, 0, 11, 0]"
  have len: "length (dump_header ?ns) = 110"
    using assms(3) by (subst length_dump_header) simp_all
  have data: "data = pre @ dump_header ?ns @ (trailer_name @ [0]) @ write_zeros (pos + 121)"
    using len by (simp add: assms(1) dump_trailer_def Let_def add.assoc)
  have name: "length trailer_name = 10" "last trailer_name \<noteq> 0"
    by (simp_all add: trailer_name_def str_def)
  have pad: "pos + (111 + (10 + (align4 (pos + 121) - (pos + 121)))) = align4 (pos + 121)"
    using align4_ge [of "pos + 121"] by linarith
  have "length data = pos + (111 + (10 + (align4 (pos + 121) - (pos + 121))))"
    using len assms(2) name(1) by (simp add: data)
  with pad have end_of: "align4 (pos + 121) = length data" by (simp only:)
  have "load_step data pos c
      = load_body data (align4 (pos + 111 + length trailer_name)) c (dumped_header ?ns) trailer_name"
    using assms(3) name by (intro load_step_named [OF data assms(2)]) simp_all
  also have "align4 (pos + 111 + length trailer_name) = length data"
    using end_of name(1) by (simp add: add.assoc)
  also have "load_body data (length data) c (dumped_header ?ns) trailer_name = (c, Inl (Inr ()))"
    by (simp add: load_body_def go_slice_def trailer_name_def cpio_magic_def str_def)
  finally show ?thesis .
qed

lemma parse_dumped:
  assumes "\<forall>k \<in> set (Keys c). plain_name k \<and> entry_fits (300000 + length (Keys c)) k (entry_at c k)"
    and "300000 + length (Keys c) < 2 ^ 32"
  shows "LoadFromData NewCpio (dump_bytes c) =
    (\<lparr>Entries = (\<lambda>k. if k \<in> set (Keys c) then Some (entry_at c k) else None), Keys = Keys c\<rparr>, Inr ())"
proof -
  obtain out pos inode where d: "dump_loop c (Keys c) 0 300000 = (out, pos, inode)"
    by (cases "dump_loop c (Keys c) 0 300000") auto
  let ?data = "dump_bytes c"
  let ?c = "put_all (entry_at c) (Keys c) NewCpio"
  have data: "?data = out @ dump_trailer pos inode"
    using d by (simp add: dump_bytes_def)
  have l: "load_loop ?data 0 NewCpio = load_loop ?data pos ?c \<and> pos = 0 + length out
      \<and> inode = 300000 + length (Keys c)"
    using assms(1) by (intro load_loop_dumped [OF d, where pre = "[]"]) (simp_all add: data)
  have "0 < length (dump_trailer pos inode)"
    by (simp add: dump_trailer_def Let_def)
  then have "pos < length ?data" using l data by simp
  moreover have "load_step ?data pos ?c = (?c, Inl (Inr ()))"
    using l data assms(2) by (intro load_step_trailer [where pre = out and inode = inode]) simp_all
  ultimately have "load_loop ?data pos ?c = (?c, Inr ())"
    by (subst load_loop.simps) simp
  then show ?thesis
    using l by (simp add: LoadFromData_def put_all_eq NewCpio_def cong: if_cong)
qed

text \<open>
  C1. Reading back a written archive gives the archive: \<open>LoadFromData\<close> on the output of
  \<open>Dump\<close> succeeds and yields the same keys in the same order (repeated keys included) and,
  for every key, the entry that was written. The sizes must fit the 8 digit fields, and no
  key may be a name the reader treats specially or end in a NUL byte.
\<close>

theorem load_dump:
  assumes "\<forall>k \<in> set (Keys c). plain_name k \<and> entry_fits (300000 + length (Keys c)) k (entry_at c k)"
    and "300000 + length (Keys c) < 2 ^ 32"
  shows "LoadFromData NewCpio (dump_bytes c) =
    (\<lparr>Entries = (\<lambda>k. if k \<in> set (Keys c) then Some (entry_at c k) else None), Keys = Keys c\<rparr>, Inr ())"
  by (rule parse_dumped [OF assms])

definition two_entries :: Cpio where
  "two_entries =
     \<lparr>Entries = [str ''bin'' \<mapsto> \<lparr>Mode = 0x41ed, Uid = 0, Gid = 0, RDevMajor = 0, RDevMinor = 0, Data = []\<rparr>,
        str ''bin/sh'' \<mapsto> \<lparr>Mode = 0x81ed, Uid = 1, Gid = 2, RDevMajor = 0, RDevMinor = 0, Data = [1, 2, 3, 4, 5]\<rparr>],
      Keys = [str ''bin'', str ''bin/sh'']\<rparr>"

theorem load_dump_witness: "LoadFromData NewCpio (dump_bytes two_entries) = (two_entries, Inr ())"
proof -
  have h: "\<forall>k \<in> set (Keys two_entries). plain_name k
      \<and> entry_fits (300000 + length (Keys two_entries)) k (entry_at two_entries k)"
    "300000 + length (Keys two_entries) < 2 ^ 32"
    by (simp_all add: two_entries_def plain_name_def entry_fits_def entry_at_def trailer_name_def str_def)
  have "(\<lambda>k. if k \<in> set (Keys two_entries) then Some (entry_at two_entries k) else None) = Entries two_entries"
    by (rule ext) (simp add: two_entries_def entry_at_def str_def)
  then show ?thesis using load_dump [OF h] by simp
qed

section \<open>Shape of archives and outcomes of the parser\<close>

lemma dump_entry_pos_mod: "(pos + length (dump_entry pos inode name e)) mod 4 = 0"
proof -
  define h where "h = dump_header (entry_nums inode name e)"
  define p1 p2 where "p1 = pos + length h + length name + 1" and "p2 = align4 p1 + length (Data e)"
  have "dump_entry pos inode name e = h @ name @ [0] @ write_zeros p1 @ Data e @ write_zeros p2"
    by (simp add: dump_entry_def h_def entry_nums_def p1_def p2_def Let_def)
  then have "length (dump_entry pos inode name e) =
      length h + (length name + 1) + (align4 p1 - p1) + length (Data e) + (align4 p2 - p2)"
    by (simp only: length_append length_write_zeros list.size)
  moreover have "p1 \<le> align4 p1" "p2 \<le> align4 p2" by simp_all
  ultimately have "pos + length (dump_entry pos inode name e) = align4 p2"
    unfolding p1_def p2_def by linarith
  then show ?thesis by simp
qed

lemma dump_loop_pos:
  "dump_loop c names pos inode = (out, pos', inode') \<Longrightarrow> pos mod 4 = 0 \<Longrightarrow>
   pos' = pos + length out \<and> pos' mod 4 = 0"
proof (induction names arbitrary: pos inode out)
  case (Cons k ks)
  then show ?case
    using dump_entry_pos_mod [of pos inode k "entry_at c k"]
    by (fastforce simp: Let_def split: prod.splits)
qed simp

text \<open>
  A written archive is a whole number of 4 byte words, whatever the entries are (also
  when a number does not fit its field and the header is longer than 110 bytes).
\<close>

theorem dump_aligned: "length (dump_bytes c) mod 4 = 0"
proof -
  obtain out pos inode where d: "dump_loop c (Keys c) 0 300000 = (out, pos, inode)"
    by (cases "dump_loop c (Keys c) 0 300000") auto
  define h where "h = dump_header [inode, 493, 0, 0, 1, 0, 0, 0, 0, 0, 0, 11, 0]"
  define p where "p = pos + length h + 11"
  have "dump_bytes c = out @ h @ trailer_name @ [0] @ write_zeros p"
    using d by (simp add: dump_bytes_def dump_trailer_def h_def p_def Let_def)
  moreover have "length trailer_name = 10" by (simp add: trailer_name_def)
  ultimately have "length (dump_bytes c) = length out + length h + 11 + (align4 p - p)"
    by (simp only: length_append length_write_zeros list.size)
  moreover have "pos = length out" using dump_loop_pos [OF d] by simp
  moreover have "p \<le> align4 p" by simp
  ultimately have "length (dump_bytes c) = align4 p" unfolding p_def by linarith
  then show ?thesis by simp
qed

lemma x8u_error: "x8u x = Inl e \<Longrightarrow> length x = 8 \<Longrightarrow> e = Err ParseSyntax \<or> e = Err ParseRange"
proof -
  have "parse_digits base lim n s = Inl e \<Longrightarrow> e = Err ParseSyntax \<or> e = Err ParseRange" for base lim n s
    by (induction base lim n s rule: parse_digits.induct) (auto split: option.splits if_splits)
  then show "x8u x = Inl e \<Longrightarrow> length x = 8 \<Longrightarrow> ?thesis"
    by (cases "ParseUint x 16 32") (auto simp: x8u_def ParseUint_def split: if_splits)
qed

lemma parse_digits_no_range:
  "n \<le> 16 ^ k - 1 \<Longrightarrow> 16 ^ (k + length s) - 1 \<le> lim \<Longrightarrow> parse_digits 16 lim n s \<noteq> Inl (Err ParseRange)"
proof (induction s arbitrary: n k)
  case (Cons c cs)
  have "n * 16 + d \<le> 16 ^ Suc k - 1" if "d < 16" for d :: nat
  proof -
    have "(0 :: nat) < 16 ^ k" by simp
    with Cons.prems(1) have "n + 1 \<le> 16 ^ k" by linarith
    then have "(n + 1) * 16 \<le> 16 ^ k * 16" by (rule mult_le_mono1)
    with that show ?thesis by simp
  qed
  moreover have "(16 :: nat) ^ Suc k - 1 \<le> 16 ^ (k + length (c # cs)) - 1"
    by (intro diff_le_mono power_increasing) simp_all
  ultimately show ?case
    using Cons.IH [of _ "Suc k"] Cons.prems(2)
    by (auto split: option.split) (meson leD le_trans not_le)+
qed simp

lemma x8u_no_range: "length x = 8 \<Longrightarrow> x8u x \<noteq> Inl (Err ParseRange)"
  using parse_digits_no_range [of 0 0 x "2 ^ 32 - 1"]
  by (cases "ParseUint x 16 32") (auto simp: x8u_def ParseUint_def split: if_splits)

text \<open>The archive after some parsing: more keys at the end, and an entry for each of them.\<close>

definition grows :: "Cpio \<Rightarrow> Cpio \<Rightarrow> bool" where
  "grows c c' \<longleftrightarrow> (\<exists>ks. Keys c' = Keys c @ ks \<and> dom (Entries c') = dom (Entries c) \<union> set ks)"

lemma grows_refl [simp]: "grows c c"
  by (simp add: grows_def)

lemma grows_put [simp]: "grows c (put_entry name e c)"
  by (auto simp: grows_def put_entry_def)

lemma grows_trans: "grows c c' \<Longrightarrow> grows c' c'' \<Longrightarrow> grows c c''"
  by (auto simp: grows_def)

definition load_errors :: "go_exit set" where
  "load_errors = {Err InvalidCpioMagic, Err ParseSyntax, Panic SliceOutOfRange}"

lemma load_body_outcomes:
  "load_body data pos c h name = (c', r) \<Longrightarrow>
   grows c c' \<and> (\<forall>e. r = Inl (Inl e) \<longrightarrow> e = Panic SliceOutOfRange)"
  by (auto simp: load_body_def Let_def go_slice_def split: sum.splits option.splits if_splits)

lemma namesize_error:
  assumes "get_CpioHeader hb = Some (h, rest)" "x8u (Namesize h) = Inl e"
  shows "e = Err ParseSyntax"
proof -
  have "length (Namesize h) = 8"
    using cpio_header.dec_sound [OF assms(1)] by (simp add: cpio_header_ok_def)
  with assms(2) show ?thesis using x8u_error [of "Namesize h" e] x8u_no_range [of "Namesize h"] by auto
qed

lemma load_step_outcomes:
  assumes "load_step data pos c = (c', r)"
  shows "grows c c' \<and> (\<forall>e. r = Inl (Inl e) \<longrightarrow> e \<in> load_errors)"
proof (cases "go_slice data pos (pos + 110)")
  case (Inl e)
  then have "e = Panic SliceOutOfRange" by (auto simp: go_slice_def split: if_splits)
  with Inl assms show ?thesis by (auto simp: load_step_def load_errors_def)
next
  case (Inr hb)
  show ?thesis
  proof (cases "get_CpioHeader hb")
    case None
    with Inr assms show ?thesis by (auto simp: load_step_def load_errors_def)
  next
    case (Some hr)
    obtain h rest where h: "get_CpioHeader hb = Some (h, rest)" using Some by (cases hr) simp
    show ?thesis
    proof (cases "x8u (Namesize h)")
      case (Inl e)
      with namesize_error [OF h Inl] Inr h assms show ?thesis
        by (auto simp: load_step_def load_errors_def split: if_splits)
    next
      case ns: (Inr n)
      show ?thesis
      proof (cases "go_slice data (pos + 110) (pos + 110 + unat n)")
        case (Inl e)
        then have "e = Panic SliceOutOfRange" by (auto simp: go_slice_def split: if_splits)
        with Inl ns Inr h assms show ?thesis
          by (auto simp: load_step_def load_errors_def split: if_splits)
      next
        case nm: (Inr nm)
        with ns Inr h assms show ?thesis
          by (auto simp: load_step_def load_errors_def split: if_splits dest!: load_body_outcomes)
      qed
    qed
  qed
qed

lemma load_loop_outcomes:
  "load_loop data pos c = (c', r) \<Longrightarrow> grows c c' \<and> (\<forall>e. r = Inl e \<longrightarrow> e \<in> load_errors)"
proof (induction data pos c arbitrary: c' r rule: load_loop.induct)
  case (1 data pos c)
  obtain c1 s where s: "load_step data pos c = (c1, s)" by (cases "load_step data pos c")
  note out = load_step_outcomes [OF s]
  show ?case
  proof (cases "pos < length data")
    case False
    with "1.prems" show ?thesis by (subst (asm) load_loop.simps) auto
  next
    case True
    show ?thesis
    proof (cases s)
      case (Inl q)
      with "1.prems" True s have "c' = c1" "r = q" by (subst (asm) load_loop.simps, simp)+
      with out Inl show ?thesis by auto
    next
      case (Inr pos')
      with "1.prems" True s have "load_loop data pos' c1 = (c', r)"
        by (subst (asm) load_loop.simps) simp
      from "1.IH" [OF True s [symmetric] Inr this] out show ?thesis
        by (auto intro: grows_trans)
    qed
  qed
qed

text \<open>
  C14. What parsing can do on any input. The archive only grows, also when the result is an
  error: the keys already there stay in front, and the entries are those there before and
  one for each new key. The only failures are a bad magic, a name size that is not
  hexadecimal, and the slice panic of a truncated archive: the \<open>bad cpio header\<close> error and
  the range error of \<open>x8u\<close> cannot happen.
\<close>

theorem load_outcomes:
  "(\<exists>ks. Keys (fst (LoadFromData c data)) = Keys c @ ks
      \<and> dom (Entries (fst (LoadFromData c data))) = dom (Entries c) \<union> set ks)
   \<and> snd (LoadFromData c data) \<in>
      {Inr (), Inl (Err InvalidCpioMagic), Inl (Err ParseSyntax), Inl (Panic SliceOutOfRange)}"
proof -
  obtain c' r where cr: "load_loop data 0 c = (c', r)" by (cases "load_loop data 0 c")
  from load_loop_outcomes [OF cr] show ?thesis
    by (cases r) (auto simp: LoadFromData_def cr grows_def load_errors_def)
qed

lemma load_step_cut_trailer:
  assumes "pos mod 4 = 0" "length pre = pos" "inode < 2 ^ 32" "0 < k" "k \<le> 3"
  shows "length (dump_trailer pos inode) = 124
    \<and> load_step (pre @ take (124 - k) (dump_trailer pos inode)) pos c = (c, Inl (Inl (Panic SliceOutOfRange)))"
proof -
  let ?ns = "[inode, 493, 0, 0, 1, 0, 0, 0, 0, 0, 0, 11, 0]"
  let ?data = "pre @ take (124 - k) (dump_trailer pos inode)"
  have len: "length (dump_header ?ns) = 110"
    using assms(3) by (subst length_dump_header) simp_all
  have name: "length trailer_name = 10" "last trailer_name \<noteq> 0"
    by (simp_all add: trailer_name_def str_def)
  have al: "align4 (pos + 121) = pos + 124"
    using align4_add_mult [OF assms(1), of 121] by (simp add: align4_def)
  have tr: "dump_trailer pos inode = (dump_header ?ns @ trailer_name @ [0]) @ replicate 3 0"
    using len al by (simp add: dump_trailer_def write_zeros_def Let_def add.assoc)
  have "take (124 - k) (dump_trailer pos inode) = dump_header ?ns @ (trailer_name @ [0]) @ replicate (3 - k) 0"
    unfolding tr using len name(1) assms(4,5) by (subst take_append) simp
  then have data: "?data = pre @ dump_header ?ns @ (trailer_name @ [0]) @ replicate (3 - k) 0" by simp
  have "load_step ?data pos c
      = load_body ?data (align4 (pos + 111 + length trailer_name)) c (dumped_header ?ns) trailer_name"
    using assms(3) name by (intro load_step_named [OF data assms(2)]) simp_all
  also have "align4 (pos + 111 + length trailer_name) = pos + 124"
    using al name(1) by (simp add: add.assoc)
  also have "load_body ?data (pos + 124) c (dumped_header ?ns) trailer_name = (c, Inl (Inl (Panic SliceOutOfRange)))"
    using assms(2,4,5) len name(1)
    by (simp add: data load_body_def go_slice_def trailer_name_def str_def)
  finally show ?thesis using len name(1) by (simp add: tr)
qed

text \<open>
  The padding after the trailer is required by the reader. A written archive cut one to
  three bytes short (only zero padding is lost) makes \<open>LoadFromData\<close> panic after it has
  read every entry.
\<close>

theorem load_cut_padding_panics:
  assumes "\<forall>k \<in> set (Keys c). plain_name k \<and> entry_fits (300000 + length (Keys c)) k (entry_at c k)"
    and "300000 + length (Keys c) < 2 ^ 32" and "0 < k" "k \<le> 3"
  shows "LoadFromData NewCpio (take (length (dump_bytes c) - k) (dump_bytes c)) =
    (\<lparr>Entries = (\<lambda>k. if k \<in> set (Keys c) then Some (entry_at c k) else None), Keys = Keys c\<rparr>,
     Inl (Panic SliceOutOfRange))"
proof -
  obtain out pos inode where d: "dump_loop c (Keys c) 0 300000 = (out, pos, inode)"
    by (cases "dump_loop c (Keys c) 0 300000") auto
  let ?c = "put_all (entry_at c) (Keys c) NewCpio"
  let ?data = "out @ take (124 - k) (dump_trailer pos inode)"
  have mod: "pos mod 4 = 0" using dump_loop_pos [OF d mod_0] by (rule conjunct2)
  have l: "load_loop ?data 0 NewCpio = load_loop ?data pos ?c \<and> pos = 0 + length out
      \<and> inode = 300000 + length (Keys c)"
    using assms(1) by (intro load_loop_dumped [OF d, where pre = "[]"]) simp_all
  have cut: "length (dump_trailer pos inode) = 124
      \<and> load_step ?data pos ?c = (?c, Inl (Inl (Panic SliceOutOfRange)))"
    using l assms(2-4) by (intro load_step_cut_trailer [OF mod]) simp_all
  have "take (length (dump_bytes c) - k) (dump_bytes c) = ?data"
    using d cut assms(4) by (simp add: dump_bytes_def)
  moreover have "pos < length ?data" using l cut assms(4) by simp
  then have "load_loop ?data pos ?c = (?c, Inl (Panic SliceOutOfRange))"
    using cut by (subst load_loop.simps) simp
  then have "LoadFromData NewCpio ?data = (?c, Inl (Panic SliceOutOfRange))"
    using l [THEN conjunct1] by (simp add: LoadFromData_def)
  ultimately show ?thesis by (simp add: put_all_eq NewCpio_def cong: if_cong)
qed

theorem load_cut_padding_panics_witness:
  "LoadFromData NewCpio (take (length (dump_bytes two_entries) - 1) (dump_bytes two_entries)) =
     (two_entries, Inl (Panic SliceOutOfRange))"
proof -
  have h: "\<forall>k \<in> set (Keys two_entries). plain_name k
      \<and> entry_fits (300000 + length (Keys two_entries)) k (entry_at two_entries k)"
    "300000 + length (Keys two_entries) < 2 ^ 32" "(0 :: nat) < 1" "(1 :: nat) \<le> 3"
    by (simp_all add: two_entries_def plain_name_def entry_fits_def entry_at_def trailer_name_def str_def)
  have "(\<lambda>k. if k \<in> set (Keys two_entries) then Some (entry_at two_entries k) else None) = Entries two_entries"
    by (rule ext) (simp add: two_entries_def entry_at_def str_def)
  then show ?thesis using load_cut_padding_panics [OF h] by simp
qed

section \<open>Archives that were read are written faithfully\<close>

text \<open>
  What every archive read from \<open>m\<close> bytes satisfies: plain names, and sizes that fit.
\<close>

definition sized :: "nat \<Rightarrow> Cpio \<Rightarrow> bool" where
  "sized m c \<longleftrightarrow> list_all (\<lambda>k. plain_name k \<and> length k + 110 \<le> m \<and> length (Data (entry_at c k)) \<le> m) (Keys c)"

lemma sized_put:
  "sized m c \<Longrightarrow> plain_name k \<Longrightarrow> length k + 110 \<le> m \<Longrightarrow> length (Data e) \<le> m \<Longrightarrow> sized m (put_entry k e c)"
  by (auto simp: sized_def list_all_iff put_entry_def entry_at_def)

lemma trim_right_props: "length (trim_right s cs) \<le> length s" "trim_right s cs = [] \<or> last (trim_right s cs) \<notin> set cs"
proof -
  show "length (trim_right s cs) \<le> length s"
    using length_dropWhile_le [of "\<lambda>c. c \<in> set cs" "rev s"] by (simp add: trim_right_def)
  show "trim_right s cs = [] \<or> last (trim_right s cs) \<notin> set cs"
    using hd_dropWhile [of "\<lambda>c. c \<in> set cs" "rev s"] by (auto simp: trim_right_def last_rev)
qed

lemma load_body_sized:
  assumes "load_body data pos c h (trim_right nm [0]) = (c', r)" "sized (length data) c"
    and "length nm + 110 \<le> length data" "pos \<le> length data + 3"
  shows "sized (length data) c' \<and> length (Keys c') \<le> Suc (length (Keys c))
    \<and> (case r of Inl _ \<Rightarrow> Keys c' = Keys c | Inr pos' \<Rightarrow> pos' \<le> length data + 3)"
proof -
  let ?name = "trim_right nm [0]"
  have small: "length ?name + 110 \<le> length data" "?name = [] \<or> last ?name \<noteq> 0"
    using trim_right_props [of nm "[0]"] assms(3) by auto
  have i: "index_of rest cpio_magic = Some i \<Longrightarrow> i \<le> length rest" for rest i
    using index_of_Some_prefix by blast
  consider "?name = str ''.'' \<or> ?name = str ''..''" | "?name = trailer_name" | "plain_name ?name"
    using small(2) by (auto simp: plain_name_def)
  then show ?thesis
  proof cases
    case 1
    with assms show ?thesis by (auto simp: load_body_def)
  next
    case 2
    then have "?name \<noteq> str ''.'' \<and> ?name \<noteq> str ''..''" by (simp add: trailer_name_def str_eq_iff)
    with 2 assms show ?thesis
      by (auto simp: load_body_def go_slice_Inr_iff split: sum.splits option.splits dest!: i)
  next
    case 3
    then have n: "?name \<noteq> str ''.'' \<and> ?name \<noteq> str ''..'' \<and> ?name \<noteq> trailer_name" by (simp add: plain_name_def)
    let ?n = "unat (xx8u (Filesize h))"
    show ?thesis
    proof (cases "go_slice data pos (pos + ?n)")
      case (Inl e)
      with n assms(1,2) show ?thesis by (auto simp: load_body_def Let_def)
    next
      case (Inr d)
      then have d: "length d \<le> length data" "pos + ?n \<le> length data" by (auto simp: go_slice_Inr_iff)
      then have c': "c' = put_entry ?name (entry_of_header h d) c" "r = Inr (align4 (pos + ?n))"
        using n assms(1) Inr by (auto simp: load_body_def Let_def)
      have "sized (length data) c'"
        unfolding c' by (rule sized_put [OF assms(2) 3 small(1)]) (use d in \<open>simp add: entry_of_header_def\<close>)
      moreover have "align4 (pos + ?n) \<le> length data + 3" using d(2) align4_lt [of "pos + ?n"] by linarith
      ultimately show ?thesis by (simp add: c' put_entry_def)
    qed
  qed
qed

lemma load_step_sized:
  assumes "load_step data pos c = (c', r)" "sized (length data) c"
  shows "sized (length data) c' \<and> length (Keys c') \<le> Suc (length (Keys c))
    \<and> (case r of Inl _ \<Rightarrow> Keys c' = Keys c | Inr pos' \<Rightarrow> pos' \<le> length data + 3)"
proof (cases "\<exists>h name_sz nm. go_slice data (pos + 110) (pos + 110 + unat (name_sz :: u32)) = Inr nm
    \<and> load_body data (align4 (pos + 110 + unat name_sz)) c h (trim_right nm [0]) = (c', r)")
  case True
  then obtain h name_sz nm where nm: "go_slice data (pos + 110) (pos + 110 + unat (name_sz :: u32)) = Inr nm"
    and b: "load_body data (align4 (pos + 110 + unat name_sz)) c h (trim_right nm [0]) = (c', r)" by blast
  then have "length nm + 110 \<le> length data" "align4 (pos + 110 + unat name_sz) \<le> length data + 3"
    using align4_lt [of "pos + 110 + unat name_sz"] by (auto simp: go_slice_Inr_iff)
  with load_body_sized [OF b assms(2)] show ?thesis by blast
next
  case False
  with assms(1) have "c' = c" "\<exists>q. r = Inl q"
    by (auto simp: load_step_def Let_def split: sum.splits option.splits if_splits)
  with assms(2) show ?thesis by auto
qed

lemma load_loop_sized:
  "load_loop data pos c = (c', r) \<Longrightarrow> sized (length data) c \<Longrightarrow> 110 * length (Keys c) \<le> pos \<Longrightarrow>
   pos \<le> length data + 3 \<Longrightarrow> sized (length data) c' \<and> 110 * length (Keys c') \<le> length data + 3"
proof (induction data pos c arbitrary: c' r rule: load_loop.induct)
  case (1 data pos c)
  obtain c1 s where s: "load_step data pos c = (c1, s)" by (cases "load_step data pos c")
  note out = load_step_sized [OF s "1.prems"(2)]
  show ?case
  proof (cases "pos < length data")
    case False
    with "1.prems" show ?thesis by (subst (asm) load_loop.simps) auto
  next
    case True
    show ?thesis
    proof (cases s)
      case (Inl q)
      with "1.prems" True s have "c' = c1" by (subst (asm) load_loop.simps) simp
      with out Inl "1.prems"(3,4) show ?thesis by simp
    next
      case (Inr pos')
      with "1.prems"(1) True s have "load_loop data pos' c1 = (c', r)"
        by (subst (asm) load_loop.simps) simp
      moreover have "110 * length (Keys c1) \<le> pos'"
        using out load_step_progress [of data pos c c1 pos'] s Inr "1.prems"(3) by simp
      ultimately show ?thesis
        using "1.IH" [OF True s [symmetric] Inr] out Inr by auto
    qed
  qed
qed

lemma dump_bytes_not_Nil: "dump_bytes c \<noteq> []"
  by (simp add: dump_bytes_def dump_trailer_def dump_header_def cpio_magic_def Let_def split: prod.split)

lemma loaded_props:
  assumes "LoadFromData NewCpio data = (c, r)"
  shows "sized (length data) c" "110 * length (Keys c) \<le> length data + 3" "dom (Entries c) = set (Keys c)"
proof -
  have l: "load_loop data 0 NewCpio = (c, r)" using assms by (simp add: LoadFromData_def)
  show "sized (length data) c" "110 * length (Keys c) \<le> length data + 3"
    using load_loop_sized [OF l] by (simp_all add: sized_def NewCpio_def)
  show "dom (Entries c) = set (Keys c)"
    using load_loop_outcomes [OF l] by (auto simp: grows_def NewCpio_def)
qed

lemma reload:
  assumes "LoadFromData NewCpio data = (c, r)" "length data < 2 ^ 32"
  shows "LoadFromData NewCpio (dump_bytes c) = (c, Inr ())"
proof -
  note props = loaded_props [OF assms(1)]
  have "\<forall>k \<in> set (Keys c). plain_name k \<and> entry_fits (300000 + length (Keys c)) k (entry_at c k)"
    using props(1,2) assms(2) by (auto simp: sized_def list_all_iff entry_fits_def)
  moreover have "300000 + length (Keys c) < 2 ^ 32" using props(2) assms(2) by simp
  ultimately have "LoadFromData NewCpio (dump_bytes c) =
      (\<lparr>Entries = (\<lambda>k. if k \<in> set (Keys c) then Some (entry_at c k) else None), Keys = Keys c\<rparr>, Inr ())"
    by (rule parse_dumped)
  moreover have "(\<lambda>k. if k \<in> set (Keys c) then Some (entry_at c k) else None) = Entries c"
    using props(3) by (auto simp: entry_at_def fun_eq_iff split: option.split)
  ultimately show ?thesis by simp
qed

end
