(* ===== verification/Cpio_Path.thy ===== *)
theory Cpio_Path
  imports Go_Strings
begin

text \<open>
  Path normalisation: \<open>path.Clean\<close> of the standard library, computed on the list of the
  components between slashes with a stack, and \<open>norm_path\<close> of \<open>cpio.go\<close>, which removes the
  leading slashes of the cleaned path.
\<close>

definition slash :: byte where
  "slash = 47"

definition dot :: bytes where
  "dot = str ''.''"

definition dotdot :: bytes where
  "dotdot = str ''..''"

lemma dot_simps [simp]:
  "dot \<noteq> []" "dotdot \<noteq> []" "dot \<noteq> dotdot" "dotdot \<noteq> dot" "slash \<notin> set dot" "slash \<notin> set dotdot"
  by (simp_all add: dot_def dotdot_def slash_def str_def)

definition clean_step :: "bool \<Rightarrow> bytes list \<Rightarrow> bytes \<Rightarrow> bytes list" where
  "clean_step rooted stk seg =
     (if seg = [] \<or> seg = dot then stk
      else if seg = dotdot then
        (if stk \<noteq> [] \<and> hd stk \<noteq> dotdot then tl stk
         else if rooted then stk
         else dotdot # stk)
      else seg # stk)"

definition clean_comps :: "bool \<Rightarrow> bytes list \<Rightarrow> bytes list" where
  "clean_comps rooted comps = rev (foldl (clean_step rooted) [] comps)"

definition path_Clean :: "bytes \<Rightarrow> bytes" where
  "path_Clean p =
     (if p = [] then dot
      else
        let rooted = (hd p = slash);
            out = (if rooted then [slash] else []) @ join_with [slash] (clean_comps rooted (split_on slash p))
        in if out = [] then dot else out)"

definition norm_path :: "bytes \<Rightarrow> bytes" where
  "norm_path p = trim_left (path_Clean p) [slash]"

section \<open>Canonical paths\<close>

definition proper :: "bytes \<Rightarrow> bool" where
  "proper n \<longleftrightarrow> n \<noteq> [] \<and> n \<noteq> dot \<and> n \<noteq> dotdot \<and> slash \<notin> set n"

text \<open>Canonical components: some \<open>..\<close> (none in a rooted path), then proper names.\<close>

definition canonical :: "bool \<Rightarrow> bytes list \<Rightarrow> bool" where
  "canonical rooted xs \<longleftrightarrow>
     (\<exists>k ns. xs = replicate k dotdot @ ns \<and> (\<forall>n \<in> set ns. proper n) \<and> (rooted \<longrightarrow> k = 0))"

lemma canonicalI: "\<forall>n \<in> set ns. proper n \<Longrightarrow> (rooted \<Longrightarrow> k = 0) \<Longrightarrow> canonical rooted (replicate k dotdot @ ns)"
  unfolding canonical_def by blast

lemma canonical_Nil [simp]: "canonical rooted []"
  using canonicalI [of "[]" rooted 0] by simp

lemma canonical_no_slash: "canonical rooted xs \<Longrightarrow> x \<in> set xs \<Longrightarrow> x \<noteq> [] \<and> x \<noteq> dot \<and> slash \<notin> set x"
proof -
  assume "canonical rooted xs" "x \<in> set xs"
  then obtain k ns where "x \<in> set (replicate k dotdot) \<or> x \<in> set ns" "\<forall>n \<in> set ns. proper n"
    unfolding canonical_def by (metis Un_iff set_append)
  then have "x = dotdot \<or> proper x" by (metis in_set_replicate)
  then show ?thesis by (elim disjE) (simp_all add: proper_def)
qed

lemma canonical_weaken: "canonical rooted xs \<Longrightarrow> canonical False xs"
  unfolding canonical_def by blast

lemma clean_step_canonical:
  assumes "canonical rooted (rev stk)" "slash \<notin> set seg"
  shows "canonical rooted (rev (clean_step rooted stk seg))"
proof -
  obtain k ns where stk: "rev stk = replicate k dotdot @ ns" and ns: "\<forall>n \<in> set ns. proper n"
    and k: "rooted \<longrightarrow> k = 0"
    using assms(1) by (auto simp: canonical_def)
  have stk': "stk = rev ns @ replicate k dotdot"
    using arg_cong [OF stk, of rev] by simp
  show ?thesis
  proof (cases "seg = [] \<or> seg = dot")
    case True
    with assms(1) show ?thesis by (simp add: clean_step_def)
  next
    case False
    show ?thesis
    proof (cases "seg = dotdot")
      case True
      show ?thesis
      proof (cases ns rule: rev_cases)
        case Nil
        then have "clean_step rooted stk seg = (if rooted then stk else replicate (Suc k) dotdot)"
          using True False stk' by (cases k) (auto simp: clean_step_def)
        then show ?thesis
          using assms(1) canonicalI [of "[]" rooted "Suc k"] by (auto simp: replicate_append_same)
      next
        case (snoc ms m)
        with ns have "proper m" by simp
        then have "clean_step rooted stk seg = rev ms @ replicate k dotdot"
          using True False stk' snoc by (simp add: clean_step_def proper_def)
        moreover have "canonical rooted (replicate k dotdot @ ms)"
          using ns snoc k by (intro canonicalI) auto
        ultimately show ?thesis by simp
      qed
    next
      case not: False
      with False assms(2) have "proper seg" by (simp add: proper_def)
      then have "canonical rooted (replicate k dotdot @ (ns @ [seg]))"
        using ns k by (intro canonicalI) auto
      moreover have "clean_step rooted stk seg = seg # stk"
        using False not by (simp add: clean_step_def)
      ultimately show ?thesis using stk by simp
    qed
  qed
qed

lemma clean_comps_canonical:
  assumes "\<forall>x \<in> set comps. slash \<notin> set x"
  shows "canonical rooted (clean_comps rooted comps)"
proof -
  have "canonical rooted (rev stk) \<Longrightarrow> canonical rooted (rev (foldl (clean_step rooted) stk comps))" for stk
    using assms
  proof (induction comps arbitrary: stk)
    case (Cons x xs)
    then show ?case using clean_step_canonical [of rooted stk x] by simp
  qed simp
  from this [of "[]"] show ?thesis by (simp add: clean_comps_def)
qed

lemma clean_comps_id:
  assumes "canonical False xs"
  shows "clean_comps False xs = xs"
proof -
  obtain k ns where xs: "xs = replicate k dotdot @ ns" and ns: "\<forall>n \<in> set ns. proper n"
    using assms by (auto simp: canonical_def)
  have dd: "foldl (clean_step False) (replicate j dotdot) (replicate k dotdot) = replicate (k + j) dotdot" for j
  proof (induction k arbitrary: j)
    case (Suc k)
    have "clean_step False (replicate j dotdot) dotdot = replicate (Suc j) dotdot"
      by (cases j) (simp_all add: clean_step_def)
    with Suc [of "Suc j"] show ?case by simp
  qed simp
  have pr: "foldl (clean_step False) stk ns = rev ns @ stk" for stk
    using ns by (induction ns arbitrary: stk) (simp_all add: clean_step_def proper_def)
  show ?thesis using dd [of 0] pr by (simp add: clean_comps_def xs)
qed

lemma join_hd: "xs \<noteq> [] \<Longrightarrow> hd xs \<noteq> [] \<Longrightarrow> join_with s xs \<noteq> [] \<and> hd (join_with s xs) = hd (hd xs)"
  by (induction s xs rule: join_with.induct) auto

lemma canonical_join:
  assumes "canonical rooted xs" "xs \<noteq> []"
  shows "join_with [slash] xs \<noteq> []" "hd (join_with [slash] xs) \<noteq> slash"
    "split_on slash (join_with [slash] xs) = xs"
proof -
  have h: "hd xs \<noteq> []" "slash \<notin> set (hd xs)"
    using canonical_no_slash [OF assms(1), of "hd xs"] assms(2) by simp_all
  have "hd (hd xs) \<in> set (hd xs)" using h(1) by (rule hd_in_set)
  with h(2) have "hd (hd xs) \<noteq> slash" by metis
  with join_hd [OF assms(2) h(1), of "[slash]"]
  show "join_with [slash] xs \<noteq> []" "hd (join_with [slash] xs) \<noteq> slash"
    by simp_all
  show "split_on slash (join_with [slash] xs) = xs"
    using canonical_no_slash [OF assms(1)] by (intro split_join [OF assms(2)]) blast
qed

lemma path_Clean_eq:
  assumes "p \<noteq> []"
  obtains xs where "canonical (hd p = slash) xs"
    "path_Clean p = (if hd p = slash then slash # join_with [slash] xs
       else if xs = [] then dot else join_with [slash] xs)"
proof
  let ?xs = "clean_comps (hd p = slash) (split_on slash p)"
  show c: "canonical (hd p = slash) ?xs"
    by (rule clean_comps_canonical [OF split_on_no_sep])
  show "path_Clean p = (if hd p = slash then slash # join_with [slash] ?xs
       else if ?xs = [] then dot else join_with [slash] ?xs)"
    using assms canonical_join(1) [OF c] by (cases "hd p = slash") (auto simp: path_Clean_def Let_def)
qed

lemma path_Clean_canonical:
  assumes "canonical False xs" "xs \<noteq> []"
  shows "path_Clean (join_with [slash] xs) = join_with [slash] xs"
  using canonical_join [OF assms] assms by (simp add: path_Clean_def Let_def clean_comps_id)

lemma norm_path_cases:
  obtains (root) "norm_path p = [] \<and> p \<noteq> [] \<and> hd p = slash"
  | (here) "norm_path p = dot"
  | (comps) xs where "canonical False xs" "xs \<noteq> []" "norm_path p = join_with [slash] xs"
proof (cases "p = []")
  case True
  then have "norm_path p = dot"
    by (simp add: norm_path_def path_Clean_def trim_left_id dot_def slash_def str_def)
  then show ?thesis by (rule here)
next
  case False
  obtain xs where xs: "canonical (hd p = slash) xs"
    "path_Clean p = (if hd p = slash then slash # join_with [slash] xs
       else if xs = [] then dot else join_with [slash] xs)"
    by (rule path_Clean_eq [OF False])
  have d: "trim_left dot [slash] = dot" by (simp add: trim_left_id dot_def slash_def str_def)
  show ?thesis
  proof (cases "xs = []")
    case True
    with xs(2) d False show ?thesis
      using root here by (auto simp: norm_path_def trim_left_def split: if_splits)
  next
    case nonempty: False
    note j = canonical_join [OF xs(1) nonempty]
    have "trim_left (join_with [slash] xs) [slash] = join_with [slash] xs"
      using j by (intro trim_left_id) simp
    then have "norm_path p = join_with [slash] xs"
      using xs(2) nonempty by (simp add: norm_path_def trim_left_def split: if_splits)
    with canonical_weaken [OF xs(1)] nonempty show ?thesis by (rule comps)
  qed
qed

text \<open>
  C32. A normalised path is canonical: it is empty (the root), \<open>.\<close>, or components joined by
  single slashes of which none is empty or \<open>.\<close>, and \<open>..\<close> occurs only at the front. In
  particular it neither begins nor ends with a slash.
\<close>

theorem norm_path_canonical:
  "norm_path p = [] \<or> norm_path p = dot
   \<or> (\<exists>k ns. split_on slash (norm_path p) = replicate k dotdot @ ns \<and> list_all proper ns)"
proof (cases p rule: norm_path_cases)
  case (comps xs)
  then have "split_on slash (norm_path p) = xs" using canonical_join(3) by simp
  with comps(1) show ?thesis by (auto simp: canonical_def list_all_iff)
qed auto

text \<open>
  Normalisation is idempotent, except at the root: \<open>norm_path\<close> maps every path to \<open>/\<close>
  to the empty string, and the empty string to \<open>.\<close>.
\<close>

theorem norm_path_idem:
  "norm_path (norm_path p) = (if norm_path p = [] then dot else norm_path p)"
proof (cases p rule: norm_path_cases)
  case root
  have "norm_path [] = dot" by code_simp
  with root show ?thesis by simp
next
  case here
  have "norm_path dot = dot" by code_simp
  with here show ?thesis by simp
next
  case (comps xs)
  note j = canonical_join [OF comps(1,2)]
  have "trim_left (join_with [slash] xs) [slash] = join_with [slash] xs"
    using j by (intro trim_left_id) simp
  with comps j show ?thesis
    by (simp add: norm_path_def [of "join_with [slash] xs"] path_Clean_canonical)
qed

lemma norm_path_no_slash: "norm_path p = [] \<or> hd (norm_path p) \<noteq> slash"
proof (cases p rule: norm_path_cases)
  case (comps xs)
  then show ?thesis using canonical_join(2) by simp
qed (auto simp: dot_def slash_def str_def)

lemma norm_path_examples:
  "norm_path (str ''/a//b/./c/..'') = str ''a/b''"
  "norm_path (str ''./../x/'') = str ''../x''"
  "norm_path (str ''/..'') = []"
  by code_simp+

end
