(* ===== verification/Cpio_Store.thy ===== *)
theory Cpio_Store
  imports Cpio_Codec Cpio_Path "HOL-Library.Multiset"
begin

text \<open>
  The operations of an archive in memory (\<open>cpio.go\<close>): \<open>addEntry\<close>, \<open>Rm\<close>, \<open>Exists\<close>, \<open>Add\<close>,
  \<open>Mkdir\<close>, \<open>Ln\<close>, \<open>Mv\<close>, the selection of \<open>Ls\<close>, \<open>Extract\<close> and \<open>Test\<close>. An archive is a map of
  entries and a list of keys that the code keeps beside it; where the two can drift apart is
  part of the model. The order in which Go ranges over a map is a parameter \<open>rng\<close>.
\<close>

section \<open>Modes\<close>

definition S_IFMT :: u32 where "S_IFMT = 0xF000"
definition S_IFBLK :: u32 where "S_IFBLK = 0x6000"
definition S_IFCHR :: u32 where "S_IFCHR = 0x2000"
definition S_IFDIR :: u32 where "S_IFDIR = 0x4000"
definition S_IFLNK :: u32 where "S_IFLNK = 0xA000"
definition S_IFREG :: u32 where "S_IFREG = 0x8000"

lemmas mode_defs = S_IFMT_def S_IFBLK_def S_IFCHR_def S_IFDIR_def S_IFLNK_def S_IFREG_def

section \<open>Adding and removing\<close>

definition addEntry :: "bytes \<Rightarrow> CpioEntry \<Rightarrow> Cpio \<Rightarrow> Cpio" where
  "addEntry key entry c =
     c\<lparr>Entries := (Entries c)(key \<mapsto> entry), Keys := sort (Keys c @ [key])\<rparr>"

text \<open>\<open>removeByValue\<close> drops the first key with the value.\<close>

definition removeEntry :: "bytes \<Rightarrow> Cpio \<Rightarrow> Cpio" where
  "removeEntry k c = c\<lparr>Entries := (Entries c)(k := None), Keys := remove1 k (Keys c)\<rparr>"

definition Rm :: "(Cpio \<Rightarrow> bytes list) \<Rightarrow> bytes \<Rightarrow> bool \<Rightarrow> Cpio \<Rightarrow> Cpio" where
  "Rm rng path recursive c =
     (let path = norm_path path;
          c1 = (if path \<in> dom (Entries c) then removeEntry path c else c)
      in if recursive
         then fold removeEntry (filter (\<lambda>k. has_prefix k (path @ [slash])) (rng c1)) c1
         else c1)"

definition Exists :: "bytes \<Rightarrow> Cpio \<Rightarrow> bool" where
  "Exists path c \<longleftrightarrow> path \<in> set (Keys c)"

section \<open>Add, mkdir, ln, mv\<close>

text \<open>
  What \<open>os.Stat\<close>, \<open>os.ReadFile\<close> and \<open>stub.Stat\<close> tell of a file: its mode bits, its content
  and its device numbers; the last two are \<open>None\<close> when the call fails.
\<close>

record file_attr =
  IsRegular :: bool
  IsSymlink :: bool
  IsDevice :: bool
  IsCharDevice :: bool
  FileData :: "bytes option"
  Rdev :: "(u32 \<times> u32) option"

definition Add :: "(bytes \<Rightarrow> file_attr option) \<Rightarrow> u32 \<Rightarrow> bytes \<Rightarrow> bytes \<Rightarrow> Cpio \<Rightarrow> Cpio go" where
  "Add fs mode path file c =
     (if has_suffix path [slash] then Inl (Err PathEndsWithSlash)
      else case fs file of
        None \<Rightarrow> Inl (Err OsError)
      | Some attr \<Rightarrow>
          if IsRegular attr \<or> IsSymlink attr then
            (case FileData attr of
               None \<Rightarrow> Inl Fatal
             | Some content \<Rightarrow>
                 Inr (addEntry (norm_path path) \<lparr>Mode = mode OR S_IFREG, Uid = 0, Gid = 0,
                   RDevMajor = 0, RDevMinor = 0, Data = content\<rparr> c))
          else
            (case Rdev attr of
               None \<Rightarrow> Inl Fatal
             | Some (major, minor) \<Rightarrow>
                 if IsDevice attr then
                   Inr (addEntry (norm_path path) \<lparr>Mode = mode OR S_IFBLK, Uid = 0, Gid = 0,
                     RDevMajor = major, RDevMinor = minor, Data = []\<rparr> c)
                 else if IsCharDevice attr then
                   Inr (addEntry (norm_path path) \<lparr>Mode = mode OR S_IFCHR, Uid = 0, Gid = 0,
                     RDevMajor = major, RDevMinor = minor, Data = []\<rparr> c)
                 else Inl Fatal))"

definition Mkdir :: "u32 \<Rightarrow> bytes \<Rightarrow> Cpio \<Rightarrow> Cpio" where
  "Mkdir mode dir c =
     addEntry (norm_path dir) \<lparr>Mode = mode OR S_IFDIR, Uid = 0, Gid = 0, RDevMajor = 0,
       RDevMinor = 0, Data = []\<rparr> c"

definition Ln :: "bytes \<Rightarrow> bytes \<Rightarrow> Cpio \<Rightarrow> Cpio" where
  "Ln src dst c =
     addEntry (norm_path dst) \<lparr>Mode = S_IFLNK, Uid = 0, Gid = 0, RDevMajor = 0, RDevMinor = 0,
       Data = (if has_prefix src [slash] then [slash] @ norm_path src else norm_path src)\<rparr> c"

definition Mv :: "bytes \<Rightarrow> bytes \<Rightarrow> Cpio \<Rightarrow> Cpio" where
  "Mv from to c =
     (let from = norm_path from;
          to = norm_path to;
          entry = entry_at c from;
          newk = filter (\<lambda>k. k \<noteq> from) (Keys c)
      in addEntry to entry (c\<lparr>Entries := (Entries c)(from := None), Keys := newk\<rparr>))"

section \<open>Listing\<close>

definition ls_visible :: "bytes \<Rightarrow> bool \<Rightarrow> bytes \<Rightarrow> bool" where
  "ls_visible path recursive name =
     (let path = norm_path path;
          path = (if path \<noteq> [] then [slash] @ path else path);
          p = [slash] @ name
      in if \<not> has_prefix p path then False
         else let p = trim_prefix p path in
           if p \<noteq> [] \<and> \<not> has_prefix p [slash] then False
           else if \<not> recursive \<and> p \<noteq> [] \<and> count_list p slash > 1 then False
           else True)"

definition Ls :: "bytes \<Rightarrow> bool \<Rightarrow> Cpio \<Rightarrow> (CpioEntry \<times> bytes) list" where
  "Ls path recursive c =
     map (\<lambda>name. (entry_at c name, name)) (filter (ls_visible path recursive) (Keys c))"

section \<open>Extracting\<close>

datatype fs_op =
    MkdirAll bytes
  | OsMkdir bytes u32
  | CreateFile bytes bytes
  | Symlink bytes bytes
  | Mknod bytes u32 u32 u32

text \<open>
  \<open>path.Dir\<close>: the cleaned part up to the last slash.
\<close>

definition path_Dir :: "bytes \<Rightarrow> bytes" where
  "path_Dir p = path_Clean (rev (dropWhile (\<lambda>c. c \<noteq> slash) (rev p)))"

text \<open>
  The calls so far are the state of the file system; \<open>absent\<close> is \<open>os.IsNotExist\<close> of
  \<open>os.Stat\<close> in a state, and \<open>sys\<close> tells whether a call succeeds in a state.
\<close>

type_synonym fs_hist = "fs_op list"

definition sys_call :: "(fs_hist \<Rightarrow> fs_op \<Rightarrow> bool) \<Rightarrow> fs_hist \<Rightarrow> fs_op \<Rightarrow> fs_hist \<times> unit go" where
  "sys_call sys h op = (h @ [op], if sys h op then Inr () else Inl (Err OsError))"

text \<open>
  The regular files after a list of calls: a \<open>CreateFile\<close> that succeeds gives the file its
  content; the other calls make directories, links and nodes.
\<close>

fun replay :: "(fs_hist \<Rightarrow> fs_op \<Rightarrow> bool) \<Rightarrow> fs_hist \<Rightarrow> fs_op list \<Rightarrow> (bytes \<rightharpoonup> bytes) \<Rightarrow> (bytes \<rightharpoonup> bytes)" where
  "replay sys h [] fs = fs"
| "replay sys h (op # ops) fs =
     replay sys (h @ [op]) ops
       (case op of
          CreateFile f c \<Rightarrow> if sys h op then fs(f \<mapsto> c) else fs
        | _ \<Rightarrow> fs)"

definition files_after :: "(fs_hist \<Rightarrow> fs_op \<Rightarrow> bool) \<Rightarrow> fs_hist \<Rightarrow> (bytes \<rightharpoonup> bytes) \<Rightarrow> (bytes \<rightharpoonup> bytes)" where
  "files_after sys h fs = replay sys [] h fs"

lemma replay_other: "\<forall>c. CreateFile f c \<notin> set ops \<Longrightarrow> replay sys h ops fs f = fs f"
  by (induction ops arbitrary: h fs) (auto split: fs_op.split)

lemma files_after_Nil [simp]: "files_after sys [] fs = fs"
  by (simp add: files_after_def)

lemma files_after_other: "\<forall>c. CreateFile f c \<notin> set h \<Longrightarrow> files_after sys h fs f = fs f"
  unfolding files_after_def by (rule replay_other)

definition extractEntry ::
  "(fs_hist \<Rightarrow> bytes \<Rightarrow> bool) \<Rightarrow> (fs_hist \<Rightarrow> fs_op \<Rightarrow> bool) \<Rightarrow> bytes \<Rightarrow> bytes \<Rightarrow> Cpio \<Rightarrow> fs_hist
     \<Rightarrow> fs_hist \<times> unit go" where
  "extractEntry absent sys p out c h =
     (if p \<notin> set (Keys c) then (h, Inl Fatal)
      else
        let entry = entry_at c p;
            h = (if absent h (path_Dir p) then h @ [MkdirAll (path_Dir p)] else h);
            mode = Mode entry AND 0x1FF;
            fmt = Mode entry AND S_IFMT
        in if fmt = S_IFDIR then sys_call sys h (OsMkdir out mode)
           else if fmt = S_IFREG then sys_call sys h (CreateFile out (Data entry))
           else if fmt = S_IFLNK then sys_call sys h (Symlink (filter (\<lambda>b. b \<noteq> 0) (Data entry)) out)
           else if fmt = S_IFBLK OR S_IFCHR
             then sys_call sys h (Mknod out mode (RDevMajor entry) (RDevMinor entry))
           else (h, Inl (Err UnknownEntryType)))"

fun extract_all ::
  "(fs_hist \<Rightarrow> bytes \<Rightarrow> bool) \<Rightarrow> (fs_hist \<Rightarrow> fs_op \<Rightarrow> bool) \<Rightarrow> Cpio \<Rightarrow> bytes list \<Rightarrow> fs_hist
     \<Rightarrow> fs_hist \<times> unit go" where
  "extract_all absent sys c [] h = (h, Inr ())"
| "extract_all absent sys c (path # paths) h =
     (if path = dot \<or> path = dotdot then extract_all absent sys c paths h
      else case extractEntry absent sys path path c h of
        (h', Inl e) \<Rightarrow> (h', Inl e)
      | (h', Inr _) \<Rightarrow> extract_all absent sys c paths h')"

definition Extract ::
  "(fs_hist \<Rightarrow> bytes \<Rightarrow> bool) \<Rightarrow> (fs_hist \<Rightarrow> fs_op \<Rightarrow> bool) \<Rightarrow> bytes option \<Rightarrow> bytes option \<Rightarrow> Cpio
     \<Rightarrow> fs_hist \<Rightarrow> fs_hist \<times> unit go" where
  "Extract absent sys p out c h =
     (case (p, out) of
        (Some p, Some out) \<Rightarrow> extractEntry absent sys (norm_path p) out c h
      | _ \<Rightarrow> extract_all absent sys c (Keys c) h)"

section \<open>Test\<close>

definition MAGISK_PATCHED :: int where "MAGISK_PATCHED = 1"
definition UNSUPPORTED_CPIO :: int where "UNSUPPORTED_CPIO = 2"

definition Test :: "Cpio \<Rightarrow> int" where
  "Test c =
     (if \<exists>f \<in> set [str ''sbin/launch_daemonsu.sh'', str ''sbin/su'', str ''init.xposed.rc'',
           str ''boot/sbin/launch_daemonsu.sh'']. f \<in> set (Keys c)
      then UNSUPPORTED_CPIO
      else if \<exists>f \<in> set [str ''.backup/.magisk'', str ''init.magisk.rc'', str ''overlay/init.magisk.rc''].
           f \<in> set (Keys c)
      then MAGISK_PATCHED
      else 0)"

section \<open>The store interface\<close>

text \<open>
  What the operations promise about the entries and, as a multiset, about the key list. A
  state is \<open>covered\<close> when every entry has a key, and exact when keys and entries agree.
\<close>

locale entry_store =
  fixes put :: "'k \<Rightarrow> 'v \<Rightarrow> 's \<Rightarrow> 's"
    and del :: "'k \<Rightarrow> 's \<Rightarrow> 's"
    and look :: "'s \<Rightarrow> 'k \<rightharpoonup> 'v"
    and names :: "'s \<Rightarrow> 'k multiset"
  assumes look_put: "look (put k v s) = (look s)(k \<mapsto> v)"
    and look_del: "look (del k s) = (look s)(k := None)"
    and names_put: "names (put k v s) = add_mset k (names s)"
    and names_del: "names (del k s) = names s - {#k#}"
begin

lemma look_fold_del: "look (fold del ks s) = (look s) |` (- set ks)"
  by (induction ks arbitrary: s) (auto simp: look_del restrict_map_def fun_eq_iff)

lemma names_fold_del: "names (fold del ks s) = names s - mset ks"
  by (induction ks arbitrary: s) (auto simp: names_del diff_diff_add_mset)

lemma covered_put: "dom (look s) \<subseteq> set_mset (names s) \<Longrightarrow> dom (look (put k v s)) \<subseteq> set_mset (names (put k v s))"
  by (auto simp: look_put names_put)

lemma covered_del: "dom (look s) \<subseteq> set_mset (names s) \<Longrightarrow> dom (look (del k s)) \<subseteq> set_mset (names (del k s))"
proof
  fix x
  assume "dom (look s) \<subseteq> set_mset (names s)" "x \<in> dom (look (del k s))"
  then have "x \<in># names s" "x \<noteq> k" by (auto simp: look_del split: if_splits)
  then show "x \<in># names (del k s)" by (simp add: names_del in_diff_count)
qed

lemma exact_put:
  "finite (dom (look s)) \<Longrightarrow> names s = mset_set (dom (look s)) \<Longrightarrow> look s k = None \<Longrightarrow>
   names (put k v s) = mset_set (dom (look (put k v s)))"
  by (simp add: look_put names_put domIff)

lemma exact_del:
  "finite (dom (look s)) \<Longrightarrow> names s = mset_set (dom (look s)) \<Longrightarrow> k \<in> dom (look s) \<Longrightarrow>
   names (del k s) = mset_set (dom (look (del k s)))"
  by (simp add: look_del names_del mset_set_Diff)

lemma overwrite_then_del:
  "k \<in># names s \<Longrightarrow> k \<in># names (del k (put k v s)) \<and> look (del k (put k v s)) k = None"
  by (simp add: look_del look_put names_del names_put)

end

interpretation store: entry_store addEntry removeEntry Entries "\<lambda>c. mset (Keys c)"
  by unfold_locales (simp_all add: addEntry_def removeEntry_def)

definition tidy :: "Cpio \<Rightarrow> bool" where
  "tidy c \<longleftrightarrow> distinct (Keys c) \<and> set (Keys c) = dom (Entries c)"

definition covered :: "Cpio \<Rightarrow> bool" where
  "covered c \<longleftrightarrow> dom (Entries c) \<subseteq> set (Keys c)"

lemma tidy_covered: "tidy c \<Longrightarrow> covered c"
  by (simp add: tidy_def covered_def)

lemma tidy_mset: "tidy c \<longleftrightarrow> finite (dom (Entries c)) \<and> mset (Keys c) = mset_set (dom (Entries c))"
proof
  assume "tidy c"
  then have "distinct (Keys c)" "set (Keys c) = dom (Entries c)" by (simp_all add: tidy_def)
  then show "finite (dom (Entries c)) \<and> mset (Keys c) = mset_set (dom (Entries c))"
    by (metis List.finite_set mset_set_set)
next
  assume a: "finite (dom (Entries c)) \<and> mset (Keys c) = mset_set (dom (Entries c))"
  then have s: "set (Keys c) = dom (Entries c)" by (metis finite_set_mset_mset_set set_mset_mset)
  then have "mset (Keys c) = mset_set (set (Keys c))" using a by simp
  then have "distinct (Keys c)" using distinct_count_atmost_1 [of "Keys c"] by (simp add: count_mset_set')
  with s show "tidy c" by (simp add: tidy_def)
qed

text \<open>Ranging over the entries: any order that lists each key of the map once.\<close>

definition ranges :: "(Cpio \<Rightarrow> bytes list) \<Rightarrow> bool" where
  "ranges rng \<longleftrightarrow> (\<forall>c. covered c \<longrightarrow> distinct (rng c) \<and> set (rng c) = dom (Entries c))"

definition key_order :: "Cpio \<Rightarrow> bytes list" where
  "key_order c = remdups (filter (\<lambda>k. Entries c k \<noteq> None) (Keys c))"

lemma ranges_key_order: "ranges key_order"
  by (auto simp: ranges_def key_order_def covered_def)

section \<open>Every operation keeps the keys\<close>

lemma covered_addEntry: "covered c \<Longrightarrow> covered (addEntry k e c)"
  using store.covered_put [of c k e] by (simp add: covered_def)

lemma covered_removeEntry: "covered c \<Longrightarrow> covered (removeEntry k c)"
  using store.covered_del [of c k] by (simp add: covered_def)

lemma covered_fold_removeEntry: "covered c \<Longrightarrow> covered (fold removeEntry ks c)"
  by (induction ks arbitrary: c) (simp_all add: covered_removeEntry)

lemma covered_Rm: "covered c \<Longrightarrow> covered (Rm rng path recursive c)"
  by (simp add: Rm_def Let_def covered_fold_removeEntry covered_removeEntry)

lemma covered_Mv: "covered c \<Longrightarrow> covered (Mv from to c)"
  by (auto simp: Mv_def Let_def covered_def addEntry_def split: if_splits)

lemma tidy_addEntry: "tidy c \<Longrightarrow> Entries c k = None \<Longrightarrow> tidy (addEntry k e c)"
  using store.exact_put [of c k e] by (simp add: tidy_mset addEntry_def)

lemma tidy_removeEntry: "tidy c \<Longrightarrow> k \<in> dom (Entries c) \<Longrightarrow> tidy (removeEntry k c)"
  using store.exact_del [of c k] by (simp add: tidy_mset removeEntry_def)

lemma tidy_fold_removeEntry:
  "tidy c \<Longrightarrow> distinct ks \<Longrightarrow> set ks \<subseteq> dom (Entries c) \<Longrightarrow> tidy (fold removeEntry ks c)"
proof (induction ks arbitrary: c)
  case (Cons k ks)
  have "tidy (fold removeEntry ks (removeEntry k c))"
  proof (rule Cons.IH)
    show "tidy (removeEntry k c)" using Cons.prems by (intro tidy_removeEntry) simp_all
    show "set ks \<subseteq> dom (Entries (removeEntry k c))"
      using Cons.prems by (auto simp: removeEntry_def)
  qed (use Cons.prems in simp)
  then show ?case by simp
qed simp

lemma Keys_fold_removeEntry:
  "distinct (Keys c) \<Longrightarrow> Keys (fold removeEntry ks c) = filter (\<lambda>k. k \<notin> set ks) (Keys c)"
proof (induction ks arbitrary: c)
  case (Cons k ks)
  then show ?case
    by (simp add: removeEntry_def distinct_remove1_removeAll removeAll_filter_not_eq)
      (rule filter_cong, auto)
qed simp

text \<open>The entries that \<open>Rm\<close> takes away.\<close>

definition rm_match :: "bytes \<Rightarrow> bool \<Rightarrow> bytes \<Rightarrow> bool" where
  "rm_match path recursive k \<longleftrightarrow>
     k = norm_path path \<or> recursive \<and> has_prefix k (norm_path path @ [slash])"

definition rm_keys :: "(Cpio \<Rightarrow> bytes list) \<Rightarrow> bytes \<Rightarrow> bool \<Rightarrow> Cpio \<Rightarrow> bytes list" where
  "rm_keys rng path recursive c =
     (let p = norm_path path;
          c1 = (if p \<in> dom (Entries c) then removeEntry p c else c)
      in (if p \<in> dom (Entries c) then [p] else [])
         @ (if recursive then filter (\<lambda>k. has_prefix k (p @ [slash])) (rng c1) else []))"

lemma Rm_fold: "Rm rng path recursive c = fold removeEntry (rm_keys rng path recursive c) c"
  by (simp add: Rm_def rm_keys_def Let_def)

lemma not_own_prefix [simp]: "\<not> has_prefix p (p @ s # t)"
  using has_prefix_length [of p "p @ s # t"] by auto

lemma rm_keys_spec:
  assumes "ranges rng" "covered c"
  shows "distinct (rm_keys rng path recursive c)
    \<and> set (rm_keys rng path recursive c) = {k \<in> dom (Entries c). rm_match path recursive k}"
proof -
  let ?p = "norm_path path"
  let ?c1 = "if ?p \<in> dom (Entries c) then removeEntry ?p c else c"
  have "covered ?c1" using assms(2) covered_removeEntry by simp
  then have r: "distinct (rng ?c1)" "set (rng ?c1) = dom (Entries ?c1)"
    using assms(1) unfolding ranges_def by blast+
  have "dom (Entries ?c1) = dom (Entries c) - {?p}" by (auto simp: removeEntry_def)
  with r show ?thesis
    unfolding rm_keys_def Let_def rm_match_def by (auto split: if_splits)
qed

lemma Entries_Rm:
  "ranges rng \<Longrightarrow> covered c \<Longrightarrow>
   Entries (Rm rng path recursive c) = (Entries c) |` {k. \<not> rm_match path recursive k}"
  unfolding Rm_fold store.look_fold_del using rm_keys_spec [of rng c path recursive]
  by (auto simp: restrict_map_def fun_eq_iff)

lemma tidy_Rm: "ranges rng \<Longrightarrow> tidy c \<Longrightarrow> tidy (Rm rng path recursive c)"
  unfolding Rm_fold using rm_keys_spec [of rng c path recursive] tidy_covered [of c]
  by (intro tidy_fold_removeEntry) auto

lemma Keys_Rm:
  "ranges rng \<Longrightarrow> tidy c \<Longrightarrow>
   Keys (Rm rng path recursive c) = filter (\<lambda>k. \<not> rm_match path recursive k) (Keys c)"
  unfolding Rm_fold using rm_keys_spec [of rng c path recursive] tidy_covered [of c]
  by (subst Keys_fold_removeEntry) (auto simp: tidy_def intro!: filter_cong)

text \<open>
  C3. \<open>Rm\<close> takes away exactly the entry at the normalised path and, when recursive, those
  below it, whatever the order of the map iteration; on an archive whose keys and entries
  agree it keeps the other keys in their order and the two still agree.
\<close>

theorem Rm_spec:
  assumes "ranges rng" "covered c"
  shows "Entries (Rm rng path recursive c) = (Entries c) |` {k. \<not> rm_match path recursive k}
    \<and> (tidy c \<longrightarrow> tidy (Rm rng path recursive c)
        \<and> Keys (Rm rng path recursive c) = filter (\<lambda>k. \<not> rm_match path recursive k) (Keys c))"
  using Entries_Rm [OF assms] tidy_Rm [OF assms(1)] Keys_Rm [OF assms(1)] by simp

definition small_archive :: Cpio where
  "small_archive = addEntry (str ''sbin/su'') zero_entry (addEntry (str ''sbin'') zero_entry
     (addEntry (str ''init'') zero_entry NewCpio))"

lemma small_archive_ok: "tidy small_archive" "covered small_archive"
  by (simp_all add: tidy_def covered_def small_archive_def addEntry_def NewCpio_def str_def insert_commute)

theorem Rm_spec_witness: "Keys (Rm key_order (str ''/sbin/'') True small_archive) = [str ''init'']"
proof -
  have "filter (\<lambda>k. \<not> rm_match (str ''/sbin/'') True k) (Keys small_archive) = [str ''init'']"
    by code_simp
  with Rm_spec [OF ranges_key_order small_archive_ok(2), of "str ''/sbin/''" True] small_archive_ok(1)
  show ?thesis by simp
qed

section \<open>Adding over an entry\<close>

lemma fold_removeEntry_twice: "removeEntry k (removeEntry k c) = c\<lparr>Entries := (Entries c)(k := None),
    Keys := remove1 k (remove1 k (Keys c))\<rparr>"
  by (simp add: removeEntry_def)

text \<open>
  Adding over an entry that exists does not replace its key: the key list then holds the
  name once more than before. Removing the name again takes the entry and one of the keys,
  so that the archive still claims to have it, and a dump writes an entry of zeros for it.
\<close>

theorem readd_leaves_key:
  assumes "Exists (norm_path path) c"
  shows "count (mset (Keys (Mkdir mode path c))) (norm_path path)
        = Suc (count (mset (Keys c)) (norm_path path))
    \<and> Exists (norm_path path) (Rm rng path False (Mkdir mode path c))
    \<and> Entries (Rm rng path False (Mkdir mode path c)) (norm_path path) = None
    \<and> entry_at (Rm rng path False (Mkdir mode path c)) (norm_path path) = zero_entry"
proof -
  obtain e where m: "Mkdir mode path c = addEntry (norm_path path) e c"
    by (simp add: Mkdir_def)
  have rm: "Rm rng path False (Mkdir mode path c) = removeEntry (norm_path path) (Mkdir mode path c)"
    by (simp add: Rm_def Let_def m addEntry_def)
  have "norm_path path \<in># mset (Keys c)" using assms by (simp add: Exists_def)
  from store.overwrite_then_del [OF this, of e] show ?thesis
    unfolding rm unfolding m by (simp add: Exists_def store.names_put entry_at_def)
qed

theorem readd_leaves_key_witness:
  "Exists (str ''sbin'') (Rm key_order (str ''sbin'') False (Mkdir 0x1ED (str ''sbin'') small_archive))"
proof -
  have n: "norm_path (str ''sbin'') = str ''sbin''" "Exists (str ''sbin'') small_archive" by code_simp+
  then show ?thesis using readd_leaves_key [where path = "str ''sbin''" and c = small_archive] by simp
qed

section \<open>Moving\<close>

text \<open>
  C24. \<open>Mv\<close> binds the target to what the source was bound to and unbinds the source; nothing
  else changes. The keys are then sorted and hold the target. A source that does not exist
  is no error: the target becomes an entry of zeros. When keys and entries agree before and
  the target is free (or is the source), they agree afterwards.
\<close>

theorem Mv_spec:
  "Entries (Mv from to c)
      = (Entries c)(norm_path from := None, norm_path to \<mapsto> entry_at c (norm_path from))
   \<and> set (Keys (Mv from to c)) = insert (norm_path to) (set (Keys c) - {norm_path from})
   \<and> sorted (Keys (Mv from to c))
   \<and> (tidy c \<and> (Entries c (norm_path to) = None \<or> norm_path to = norm_path from) \<longrightarrow> tidy (Mv from to c))"
proof -
  let ?c = "c\<lparr>Entries := (Entries c)(norm_path from := None), Keys := filter (\<lambda>k. k \<noteq> norm_path from) (Keys c)\<rparr>"
  have mv: "Mv from to c = addEntry (norm_path to) (entry_at c (norm_path from)) ?c"
    by (simp add: Mv_def Let_def)
  have "tidy c \<Longrightarrow> tidy ?c" by (auto simp: tidy_def)
  then have "tidy c \<and> (Entries c (norm_path to) = None \<or> norm_path to = norm_path from) \<longrightarrow> tidy (Mv from to c)"
    unfolding mv by (intro impI tidy_addEntry) auto
  moreover have "Entries (Mv from to c)
      = (Entries c)(norm_path from := None, norm_path to \<mapsto> entry_at c (norm_path from))"
    by (simp add: mv addEntry_def)
  moreover have "set (Keys (Mv from to c)) = insert (norm_path to) (set (Keys c) - {norm_path from})"
    by (auto simp: mv addEntry_def)
  moreover have "sorted (Keys (Mv from to c))" by (simp add: mv addEntry_def)
  ultimately show ?thesis by blast
qed

theorem Mv_spec_witness: "tidy (Mv (str ''init'') (str ''init.real'') small_archive)"
proof -
  have "Entries small_archive (norm_path (str ''init.real'')) = None" by code_simp
  with Mv_spec [of "str ''init''" "str ''init.real''" small_archive] small_archive_ok(1) show ?thesis by simp
qed

section \<open>Listing\<close>

text \<open>
  What the usage text promises: the entry itself and what lies below it, one level of it
  unless the listing is recursive; the empty path is the root.
\<close>

definition levels_ok :: "bool \<Rightarrow> bytes \<Rightarrow> bool" where
  "levels_ok recursive rest \<longleftrightarrow> recursive \<or> slash \<notin> set rest"

definition listed :: "bytes \<Rightarrow> bool \<Rightarrow> bytes \<Rightarrow> bool" where
  "listed p recursive name \<longleftrightarrow>
     (if p = [] then levels_ok recursive name
      else name = p \<or> (\<exists>rest. name = p @ [slash] @ rest \<and> levels_ok recursive rest))"

lemma ls_visible_listed: "ls_visible path recursive name = listed (norm_path path) recursive name"
proof (cases "norm_path path = []")
  case True
  have "0 < count_list name slash \<longleftrightarrow> slash \<in> set name"
    using count_list_0_iff [of name slash] by auto
  with True show ?thesis by (auto simp: ls_visible_def listed_def levels_ok_def trim_prefix_def)
next
  case False
  show ?thesis
  proof (cases "has_prefix name (norm_path path)")
    case True
    then obtain t where t: "name = norm_path path @ t" by (auto simp: has_prefix_iff)
    have "0 < count_list u slash \<longleftrightarrow> slash \<in> set u" for u
      using count_list_0_iff [of u slash] by auto
    with False t show ?thesis
      by (cases t) (auto simp: ls_visible_def listed_def levels_ok_def trim_prefix_def)
  next
    case False
    with \<open>norm_path path \<noteq> []\<close> show ?thesis
      by (auto simp: ls_visible_def listed_def)
  qed
qed

text \<open>
  C25. \<open>Ls\<close> prints, in the order of the keys, the entries that lie at the normalised path or
  below it, one level deep unless it is recursive.
\<close>

theorem Ls_spec:
  "Ls path recursive c =
     map (\<lambda>name. (entry_at c name, name)) (filter (listed (norm_path path) recursive) (Keys c))"
  by (simp add: Ls_def ls_visible_listed [abs_def] cong: filter_cong)

section \<open>Extracting\<close>

text \<open>The call that creates an entry: \<open>None\<close> where the code knows no type.\<close>

definition entry_op :: "bytes \<Rightarrow> CpioEntry \<Rightarrow> fs_op option" where
  "entry_op out e =
     (let fmt = Mode e AND S_IFMT; perm = Mode e AND 0x1FF in
      if fmt = S_IFDIR then Some (OsMkdir out perm)
      else if fmt = S_IFREG then Some (CreateFile out (Data e))
      else if fmt = S_IFLNK then Some (Symlink (filter (\<lambda>b. b \<noteq> 0) (Data e)) out)
      else if fmt = S_IFBLK then Some (Mknod out perm (RDevMajor e) (RDevMinor e))
      else None)"

lemma S_IFBLK_IFCHR: "S_IFBLK OR S_IFCHR = S_IFBLK"
  by (simp add: mode_defs)

fun is_MkdirAll :: "fs_op \<Rightarrow> bool" where
  "is_MkdirAll (MkdirAll _) = True"
| "is_MkdirAll _ = False"

lemma extractEntry_op:
  "p \<in> set (Keys c) \<Longrightarrow>
   \<exists>h'. filter (\<lambda>x. \<not> is_MkdirAll x) h' = filter (\<lambda>x. \<not> is_MkdirAll x) h
     \<and> extractEntry absent sys p out c h =
       (case entry_op out (entry_at c p) of
          None \<Rightarrow> (h', Inl (Err UnknownEntryType))
        | Some op \<Rightarrow> (h' @ [op], if sys h' op then Inr () else Inl (Err OsError)))"
  by (rule exI [of _ "if absent h (path_Dir p) then h @ [MkdirAll (path_Dir p)] else h"])
    (simp add: extractEntry_def entry_op_def Let_def sys_call_def S_IFBLK_IFCHR)

lemma entry_op_not_mkdirall: "entry_op out e = Some op \<Longrightarrow> \<not> is_MkdirAll op"
  by (auto simp: entry_op_def Let_def split: if_splits)

definition real_keys :: "Cpio \<Rightarrow> bytes list" where
  "real_keys c = filter (\<lambda>k. k \<noteq> dot \<and> k \<noteq> dotdot) (Keys c)"

lemma extract_all_ops:
  "set ks \<subseteq> set (Keys c) \<Longrightarrow>
   \<forall>k \<in> set (filter (\<lambda>k. k \<noteq> dot \<and> k \<noteq> dotdot) ks). entry_op k (entry_at c k) \<noteq> None \<Longrightarrow>
   \<forall>h op. sys h op \<Longrightarrow>
   \<exists>h'. extract_all absent sys c ks h = (h', Inr ())
     \<and> filter (\<lambda>x. \<not> is_MkdirAll x) h' = filter (\<lambda>x. \<not> is_MkdirAll x) h
         @ map (\<lambda>k. the (entry_op k (entry_at c k))) (filter (\<lambda>k. k \<noteq> dot \<and> k \<noteq> dotdot) ks)"
proof (induction ks arbitrary: h)
  case (Cons k ks)
  show ?case
  proof (cases "k = dot \<or> k = dotdot")
    case True
    with Cons show ?thesis by auto
  next
    case False
    with Cons.prems obtain op where op: "entry_op k (entry_at c k) = Some op" by auto
    from Cons.prems(1) have "k \<in> set (Keys c)" by simp
    from extractEntry_op [OF this, of h absent sys k] obtain h1 where
      h1: "filter (\<lambda>x. \<not> is_MkdirAll x) h1 = filter (\<lambda>x. \<not> is_MkdirAll x) h"
        "extractEntry absent sys k k c h = (h1 @ [op], Inr ())"
      using Cons.prems(3) op by auto
    have "\<exists>h'. extract_all absent sys c ks (h1 @ [op]) = (h', Inr ())
       \<and> filter (\<lambda>x. \<not> is_MkdirAll x) h' = filter (\<lambda>x. \<not> is_MkdirAll x) (h1 @ [op])
         @ map (\<lambda>k. the (entry_op k (entry_at c k))) (filter (\<lambda>k. k \<noteq> dot \<and> k \<noteq> dotdot) ks)"
      using Cons.prems by (intro Cons.IH) auto
    with False h1 op entry_op_not_mkdirall [OF op] show ?thesis by auto
  qed
qed simp

text \<open>
  C23. When every entry is a directory, a regular file, a symbolic link or a block device, and
  no system call fails, extracting everything succeeds and makes exactly one call for each
  key, in key order, besides creating missing parents.
\<close>

theorem Extract_all_spec:
  assumes "\<forall>k \<in> set (real_keys c). entry_op k (entry_at c k) \<noteq> None"
    and "\<forall>h op. sys h op"
  shows "snd (Extract absent sys p None c []) = Inr ()
    \<and> filter (\<lambda>x. \<not> is_MkdirAll x) (fst (Extract absent sys p None c []))
      = map (\<lambda>k. the (entry_op k (entry_at c k))) (real_keys c)"
  using extract_all_ops [of "Keys c" c sys absent "[]"] assms
  by (auto simp: Extract_def real_keys_def split: option.splits)

definition file_and_dir :: Cpio where
  "file_and_dir = addEntry (str ''init'') (zero_entry\<lparr>Mode := 0x81ED, Data := str ''#!''\<rparr>)
     (Mkdir 0x1ED (str ''dev'') NewCpio)"

theorem Extract_all_spec_witness:
  "filter (\<lambda>x. \<not> is_MkdirAll x) (fst (Extract (\<lambda>_ _. False) (\<lambda>_ _. True) None None file_and_dir []))
     = [OsMkdir (str ''dev'') 0x1ED, CreateFile (str ''init'') (str ''#!'')]"
proof -
  have k: "real_keys file_and_dir = [str ''dev'', str ''init'']"
    "entry_op (str ''dev'') (entry_at file_and_dir (str ''dev'')) = Some (OsMkdir (str ''dev'') 0x1ED)"
    "entry_op (str ''init'') (entry_at file_and_dir (str ''init'')) = Some (CreateFile (str ''init'') (str ''#!''))"
    by code_simp+
  show ?thesis using Extract_all_spec [of file_and_dir "\<lambda>_ _. True" "\<lambda>_ _. False" None] by (simp add: k)
qed

text \<open>
  A character device cannot be extracted: the case label \<open>S_IFBLK | S_IFCHR\<close> is the value
  of \<open>S_IFBLK\<close> alone, so its entry is reported as of unknown type. \<open>add\<close> never writes one:
  Go sets \<open>ModeDevice\<close> for every \<open>ModeCharDevice\<close>, and the code tests it first, so a
  character device is stored as a block device.
\<close>

theorem char_device_mishandled:
  assumes "Mode (entry_at c p) AND S_IFMT = S_IFCHR" "p \<in> set (Keys c)"
    and "fs file = Some attr" "IsCharDevice attr" "IsDevice attr" "\<not> IsRegular attr" "\<not> IsSymlink attr"
    and "Rdev attr = Some (major, minor)" "\<not> has_suffix path [slash]" "mode AND S_IFMT = 0"
  shows "snd (extractEntry absent sys p out c h) = Inl (Err UnknownEntryType)
    \<and> (\<exists>c'. Add fs mode path file c = Inr c'
         \<and> Mode (entry_at c' (norm_path path)) AND S_IFMT = S_IFBLK)"
proof
  have "entry_op out (entry_at c p) = None"
    using assms(1) by (simp add: entry_op_def Let_def mode_defs)
  with extractEntry_op [OF assms(2), of h absent sys out]
  show "snd (extractEntry absent sys p out c h) = Inl (Err UnknownEntryType)" by auto
  have "(mode OR S_IFBLK) AND S_IFMT = S_IFBLK"
    using assms(10) by (simp add: bit.conj_disj_distrib2 mode_defs)
  then show "\<exists>c'. Add fs mode path file c = Inr c' \<and> Mode (entry_at c' (norm_path path)) AND S_IFMT = S_IFBLK"
    using assms(3-9) by (simp add: Add_def addEntry_def entry_at_def)
qed

definition null_device :: file_attr where
  "null_device = \<lparr>IsRegular = False, IsSymlink = False, IsDevice = True, IsCharDevice = True,
     FileData = None, Rdev = Some (1, 3)\<rparr>"

definition char_archive :: Cpio where
  "char_archive = addEntry (str ''dev/null'') (zero_entry\<lparr>Mode := 0x21B6, RDevMajor := 1, RDevMinor := 3\<rparr>) NewCpio"

theorem char_device_mishandled_witness:
  "snd (extractEntry (\<lambda>_ _. False) (\<lambda>_ _. True) (str ''dev/null'') (str ''null'') char_archive [])
     = Inl (Err UnknownEntryType)
   \<and> (\<exists>c'. Add (\<lambda>_. Some null_device) 0x1B6 (str ''dev/zero'') (str ''/dev/null'') char_archive = Inr c'
        \<and> Mode (entry_at c' (norm_path (str ''dev/zero''))) AND S_IFMT = S_IFBLK)"
proof -
  have a: "Mode (entry_at char_archive (str ''dev/null'')) AND S_IFMT = S_IFCHR"
    "str ''dev/null'' \<in> set (Keys char_archive)" "\<not> has_suffix (str ''dev/zero'') [slash]"
    "(0x1B6 :: u32) AND S_IFMT = 0"
    by code_simp+
  have d: "IsCharDevice null_device" "IsDevice null_device" "\<not> IsRegular null_device"
    "\<not> IsSymlink null_device" "Rdev null_device = Some (1, 3)"
    by (simp_all add: null_device_def)
  show ?thesis
    by (rule char_device_mishandled [where fs = "\<lambda>_. Some null_device", OF a(1,2) refl d a(3,4)])
qed

section \<open>Printing an entry\<close>

text \<open>
  The \<open>Format\<close> method behind \<open>%v\<close>. \<open>humanize.Bytes\<close> is library code and a parameter.
  \<open>pad_left\<close> and \<open>pad_right\<close> are the widths of \<open>fmt\<close>.
\<close>

definition perm_char :: "u32 \<Rightarrow> u32 \<Rightarrow> byte \<Rightarrow> byte" where
  "perm_char m flag c = (if m AND flag \<noteq> 0 then c else 45)"

definition type_char :: "u32 \<Rightarrow> byte" where
  "type_char m =
     (let fmt = m AND S_IFMT in
      if fmt = S_IFDIR then 100
      else if fmt = S_IFREG then 45
      else if fmt = S_IFLNK then 108
      else if fmt = S_IFBLK then 98
      else if fmt = S_IFCHR then 99
      else 63)"

definition mode_string :: "u32 \<Rightarrow> bytes" where
  "mode_string m = [type_char m,
     perm_char m 0x100 114, perm_char m 0x80 119, perm_char m 0x40 120,
     perm_char m 0x20 114, perm_char m 0x10 119, perm_char m 8 120,
     perm_char m 4 114, perm_char m 2 119, perm_char m 1 120]"

fun decimal :: "nat \<Rightarrow> bytes" where
  "decimal n = (if n < 10 then [hex_digit n] else decimal (n div 10) @ [hex_digit (n mod 10)])"

declare decimal.simps [simp del]

definition pad_left :: "nat \<Rightarrow> bytes \<Rightarrow> bytes" where
  "pad_left w s = replicate (w - length s) 32 @ s"

definition pad_right :: "nat \<Rightarrow> bytes \<Rightarrow> bytes" where
  "pad_right w s = s @ replicate (w - length s) 32"

definition Format_entry :: "(nat \<Rightarrow> bytes) \<Rightarrow> CpioEntry \<Rightarrow> bytes" where
  "Format_entry humanize e =
     pad_left 8 (mode_string (Mode e)) @ pad_left 8 (decimal (unat (Uid e)))
     @ pad_left 8 (decimal (unat (Gid e))) @ pad_left 8 (humanize (length (Data e)))
     @ pad_left 4 (decimal (unat (RDevMajor e))) @ [58] @ pad_right 8 (decimal (unat (RDevMinor e)))"

lemma perm_char_eq_iff: "c \<noteq> 45 \<Longrightarrow> perm_char m b c = perm_char m' b c \<longleftrightarrow> (m AND b = 0) = (m' AND b = 0)"
  by (auto simp: perm_char_def)

lemma mode_string_eqD:
  "mode_string m = mode_string m' \<Longrightarrow> type_char m = type_char m'
    \<and> (m AND 0x100 = 0) = (m' AND 0x100 = 0) \<and> (m AND 0x80 = 0) = (m' AND 0x80 = 0)
    \<and> (m AND 0x40 = 0) = (m' AND 0x40 = 0) \<and> (m AND 0x20 = 0) = (m' AND 0x20 = 0)
    \<and> (m AND 0x10 = 0) = (m' AND 0x10 = 0) \<and> (m AND 8 = 0) = (m' AND 8 = 0)
    \<and> (m AND 4 = 0) = (m' AND 4 = 0) \<and> (m AND 2 = 0) = (m' AND 2 = 0)
    \<and> (m AND 1 = 0) = (m' AND 1 = 0)"
  by (simp add: mode_string_def perm_char_eq_iff)

text \<open>
  The mode column determines the nine permission bits, and the file type when it is one
  of the five known ones.
\<close>

theorem mode_string_inj:
  assumes "mode_string m = mode_string m'"
  shows "m AND 0x1FF = m' AND 0x1FF
    \<and> (m AND S_IFMT \<in> {S_IFDIR, S_IFREG, S_IFLNK, S_IFBLK, S_IFCHR} \<longrightarrow> m' AND S_IFMT = m AND S_IFMT)"
proof
  have "(m AND 2 ^ n = 0) = (m' AND 2 ^ n = 0)" if "n \<in> {0, 1, 2, 3, 4, 5, 6, 7, 8}" for n
    using mode_string_eqD [OF assms] that by (elim insertE) simp_all
  then have bits: "bit m n = bit m' n" if "n < 9" for n
    using that by (simp add: and_exp_eq_0_iff_not_bit less_Suc_eq numeral_eq_Suc)
  have mask: "(0x1FF :: u32) = mask 9" by (simp add: mask_eq_exp_minus_1)
  show "m AND 0x1FF = m' AND 0x1FF"
    unfolding mask using bits by (auto intro!: bit_word_eqI simp: bit_simps)
  show "m AND S_IFMT \<in> {S_IFDIR, S_IFREG, S_IFLNK, S_IFBLK, S_IFCHR} \<longrightarrow> m' AND S_IFMT = m AND S_IFMT"
    using mode_string_eqD [OF assms, THEN conjunct1]
    by (auto simp: type_char_def Let_def mode_defs split: if_splits)
qed

theorem mode_string_inj_witness: "(0x81ED :: u32) AND 0x1FF = 0x881ED AND 0x1FF"
proof -
  have "mode_string 0x81ED = mode_string 0x881ED" by code_simp
  then show ?thesis using mode_string_inj by blast
qed

end
