(* ===== verification/Sys_Stubs.thy ===== *)
theory Sys_Stubs
  imports Cpio_Store
begin

text \<open>
  The system call stubs in \<open>stub/\<close>: on Unix they pass their arguments to \<open>golang.org/x/sys/unix\<close>,
  which is a parameter, and on Windows they return zero. With them, what \<open>cpio.go\<close> does with a
  device file: the numbers that \<open>Add\<close> stores and the arguments of the call that \<open>extractEntry\<close> makes.
\<close>

section \<open>The two variants\<close>

text \<open>
  \<open>UStat\<close> is the field \<open>Rdev\<close> that \<open>unix.Stat\<close> fills in, \<open>UMknod\<close> tells whether the call succeeds. The
  third argument of \<open>Mknod\<close> is a Go \<open>int\<close>.
\<close>

record unix_sys =
  UMajor :: "u64 \<Rightarrow> u32"
  UMinor :: "u64 \<Rightarrow> u32"
  UMkdev :: "u32 \<Rightarrow> u32 \<Rightarrow> u64"
  UMknod :: "bytes \<Rightarrow> u32 \<Rightarrow> int \<Rightarrow> bool"
  UStat :: "bytes \<Rightarrow> u64 option"

definition unix_Major :: "unix_sys \<Rightarrow> u64 \<Rightarrow> u32" where
  "unix_Major u dev = UMajor u dev"

definition unix_Minor :: "unix_sys \<Rightarrow> u64 \<Rightarrow> u32" where
  "unix_Minor u dev = UMinor u dev"

definition unix_Mkdev :: "unix_sys \<Rightarrow> u32 \<Rightarrow> u32 \<Rightarrow> u64" where
  "unix_Mkdev u major minor = UMkdev u major minor"

definition unix_Mknod :: "unix_sys \<Rightarrow> bytes \<Rightarrow> u32 \<Rightarrow> int \<Rightarrow> unit go" where
  "unix_Mknod u path mode dev = (if UMknod u path mode dev then Inr () else Inl (Err OsError))"

definition unix_Stat :: "unix_sys \<Rightarrow> bytes \<Rightarrow> u64 go" where
  "unix_Stat u path = (case UStat u path of None \<Rightarrow> Inl (Err OsError) | Some rdev \<Rightarrow> Inr rdev)"

definition windows_Major :: "u64 \<Rightarrow> u32" where "windows_Major dev = 0"
definition windows_Minor :: "u64 \<Rightarrow> u32" where "windows_Minor dev = 0"
definition windows_Mkdev :: "u32 \<Rightarrow> u32 \<Rightarrow> u64" where "windows_Mkdev major minor = 0"
definition windows_Mknod :: "bytes \<Rightarrow> u32 \<Rightarrow> int \<Rightarrow> unit go" where "windows_Mknod path mode dev = Inr ()"
definition windows_Stat :: "bytes \<Rightarrow> u64 go" where "windows_Stat path = Inr 0"

section \<open>Device files in an archive\<close>

text \<open>The device numbers that \<open>Add\<close> takes from \<open>Stat\<close>, \<open>None\<close> when it fails.\<close>

definition stat_rdev :: "unix_sys \<Rightarrow> bytes \<Rightarrow> (u32 \<times> u32) option" where
  "stat_rdev u path =
     (case unix_Stat u path of
        Inl _ \<Rightarrow> None
      | Inr rdev \<Rightarrow> Some (unix_Major u rdev, unix_Minor u rdev))"

text \<open>The call to \<open>Mknod\<close> behind a step of \<open>extract\<close>: \<open>int(dev)\<close> reads the number as signed.\<close>

definition mknod_call :: "unix_sys \<Rightarrow> fs_op \<Rightarrow> (bytes \<times> u32 \<times> int) option" where
  "mknod_call u op =
     (case op of
        Mknod out mode major minor \<Rightarrow> Some (out, mode, sint (unix_Mkdev u major minor))
      | _ \<Rightarrow> None)"

text \<open>
  A device file that is added and extracted again is made with its device number, when \<open>unix.Mkdev\<close>
  puts together what \<open>unix.Major\<close> and \<open>unix.Minor\<close> take apart. But the mode passed to \<open>Mknod\<close> holds
  the permissions only: its type bits are zero, so the call does not ask for a device.
\<close>

theorem device_add_extract:
  assumes "\<forall>dev. UMkdev u (UMajor u dev) (UMinor u dev) = dev"
    and "fs source = Some attr" "\<not> IsRegular attr" "\<not> IsSymlink attr" "IsDevice attr"
    and "Rdev attr = stat_rdev u source" "UStat u source = Some dev"
    and "\<not> has_suffix path [slash]" "mode AND S_IFMT = 0"
  shows "\<exists>c' h' op. Add fs mode path source c = Inr c'
    \<and> extractEntry absent sys (norm_path path) out c' h = (h' @ [op], if sys h' op then Inr () else Inl (Err OsError))
    \<and> mknod_call u op = Some (out, mode AND 0x1FF, sint dev)
    \<and> (mode AND 0x1FF) AND S_IFMT = 0"
proof -
  let ?e = "\<lparr>Mode = mode OR S_IFBLK, Uid = 0, Gid = 0, RDevMajor = UMajor u dev, RDevMinor = UMinor u dev, Data = []\<rparr>"
  let ?c = "addEntry (norm_path path) ?e c"
  have r: "Rdev attr = Some (UMajor u dev, UMinor u dev)"
    using assms(6,7) by (simp add: stat_rdev_def unix_Stat_def unix_Major_def unix_Minor_def)
  have add: "Add fs mode path source c = Inr ?c"
    using assms(2-5,8) r by (simp add: Add_def)
  have b: "(mode OR S_IFBLK) AND S_IFMT = S_IFBLK"
    using assms(9) by (simp add: bit.conj_disj_distrib2 mode_defs)
  have p: "(mode OR S_IFBLK) AND 0x1FF = mode AND 0x1FF"
    by (simp add: bit.conj_disj_distrib2 mode_defs)
  have m: "(mode AND 0x1FF) AND S_IFMT = 0"
    by (simp add: and.assoc mode_defs)
  let ?op = "Mknod out (mode AND 0x1FF) (UMajor u dev) (UMinor u dev)"
  have op: "entry_op out ?e = Some ?op"
    using b p by (simp add: entry_op_def Let_def mode_defs)
  have "norm_path path \<in> set (Keys ?c)" "entry_at ?c (norm_path path) = ?e"
    by (simp_all add: addEntry_def entry_at_def)
  from extractEntry_op [OF this(1), of h absent sys out, unfolded this(2) op]
  obtain h' where "extractEntry absent sys (norm_path path) out ?c h = (h' @ [?op], if sys h' ?op then Inr () else Inl (Err OsError))"
    by auto
  moreover have "mknod_call u ?op = Some (out, mode AND 0x1FF, sint dev)"
    using assms(1) by (simp add: mknod_call_def unix_Mkdev_def)
  ultimately show ?thesis using add m by blast
qed

text \<open>Device numbers with the major number in the upper half.\<close>

definition sample_sys :: unix_sys where
  "sample_sys = \<lparr>UMajor = (\<lambda>d. ucast (drop_bit 32 d)), UMinor = ucast,
     UMkdev = (\<lambda>a b. push_bit 32 (ucast a) OR ucast b), UMknod = (\<lambda>_ _ _. True), UStat = (\<lambda>_. Some 0x700000003)\<rparr>"

lemma sample_sys_law: "UMkdev sample_sys (UMajor sample_sys d) (UMinor sample_sys d) = d"
  by (rule bit_word_eqI) (auto simp: sample_sys_def bit_simps)

definition loop_device :: file_attr where
  "loop_device = \<lparr>IsRegular = False, IsSymlink = False, IsDevice = True, IsCharDevice = False,
     FileData = None, Rdev = Some (7, 3)\<rparr>"

theorem device_add_extract_witness:
  "\<exists>c' h' op. Add (\<lambda>_. Some loop_device) 0x1B0 (str ''dev/loop3'') (str ''/dev/loop3'') NewCpio = Inr c'
    \<and> extractEntry (\<lambda>_ _. False) (\<lambda>_ _. True) (str ''dev/loop3'') (str ''loop3'') c' [] = (h' @ [op], Inr ())
    \<and> mknod_call sample_sys op = Some (str ''loop3'', 0x1B0, 0x700000003)"
proof -
  have d: "\<not> IsRegular loop_device" "\<not> IsSymlink loop_device" "IsDevice loop_device"
    "Rdev loop_device = stat_rdev sample_sys (str ''/dev/loop3'')" "UStat sample_sys (str ''/dev/loop3'') = Some 0x700000003"
    by (simp_all add: loop_device_def stat_rdev_def unix_Stat_def unix_Major_def unix_Minor_def sample_sys_def)
  have n: "norm_path (str ''dev/loop3'') = str ''dev/loop3''" "\<not> has_suffix (str ''dev/loop3'') [slash]"
    "(0x1B0 :: u32) AND S_IFMT = 0" by code_simp+
  show ?thesis
    using device_add_extract [where fs = "\<lambda>_. Some loop_device" and attr = loop_device and u = sample_sys
        and sys = "\<lambda>_ _. True" and absent = "\<lambda>_ _. False" and c = NewCpio and h = "[]" and out = "str ''loop3''",
        OF _ refl d n(2,3)] n(1)
    by (simp add: sample_sys_law) blast
qed

end
