(* ===== verification/Fstab_Patch.thy ===== *)
theory Fstab_Patch
  imports Go_Strings
begin

text \<open>
  \<open>patchFstab\<close> of \<open>patch.go\<close> with the two pattern lists, and \<open>bytes.Fields\<close>, which it uses to
  cut a line. White space is what \<open>unicode.IsSpace\<close> accepts in UTF-8; every encoding of a
  space starts with a byte that is not a continuation byte, so scanning bytes finds exactly
  the spaces a scan of runes finds.
\<close>

section \<open>Fields\<close>

definition white_space :: "bytes list" where
  "white_space = [[9], [10], [11], [12], [13], [32], [0xC2, 0x85], [0xC2, 0xA0], [0xE1, 0x9A, 0x80],
     [0xE2, 0x80, 0x80], [0xE2, 0x80, 0x81], [0xE2, 0x80, 0x82], [0xE2, 0x80, 0x83],
     [0xE2, 0x80, 0x84], [0xE2, 0x80, 0x85], [0xE2, 0x80, 0x86], [0xE2, 0x80, 0x87],
     [0xE2, 0x80, 0x88], [0xE2, 0x80, 0x89], [0xE2, 0x80, 0x8A], [0xE2, 0x80, 0xA8],
     [0xE2, 0x80, 0xA9], [0xE2, 0x80, 0xAF], [0xE2, 0x81, 0x9F], [0xE3, 0x80, 0x80]]"

text \<open>The length of the space a string starts with, 0 when it starts with none.\<close>

definition space_len :: "bytes \<Rightarrow> nat" where
  "space_len s = (case find (has_prefix s) white_space of None \<Rightarrow> 0 | Some p \<Rightarrow> length p)"

definition emit :: "bytes \<Rightarrow> bytes list" where
  "emit cur = (if cur = [] then [] else [cur])"

function fields_from :: "bytes \<Rightarrow> bytes \<Rightarrow> bytes list" where
  "fields_from cur [] = emit cur"
| "fields_from cur (b # bs) =
     (let n = space_len (b # bs) in
      if n = 0 then fields_from (cur @ [b]) bs
      else emit cur @ fields_from [] (drop (n - 1) bs))"
  by pat_completeness auto
termination
  by (relation "measure (\<lambda>(cur, s). length s)") (auto simp: less_Suc_eq_le)

definition Fields :: "bytes \<Rightarrow> bytes list" where
  "Fields s = fields_from [] s"

text \<open>A field holds no space; \<open>solid\<close> says so without looking at what follows it.\<close>

definition solid :: "bytes \<Rightarrow> bool" where
  "solid f \<longleftrightarrow> (\<forall>i < length f. space_len (drop i f) = 0)"

lemma white_space_codes:
  "list_all (\<lambda>p. p \<noteq> [] \<and> list_all (\<lambda>c. c \<noteq> 32 \<and> c \<noteq> 44) (tl p)
     \<and> list_all (\<lambda>q. has_prefix q p \<longrightarrow> p = q) white_space) white_space"
  by code_simp

lemma white_space_nonempty: "p \<in> set white_space \<Longrightarrow> p \<noteq> []"
  and white_space_tl: "p \<in> set white_space \<Longrightarrow> c = 32 \<or> c = 44 \<Longrightarrow> c \<notin> set (tl p)"
  and white_space_unique: "p \<in> set white_space \<Longrightarrow> q \<in> set white_space \<Longrightarrow> has_prefix q p \<Longrightarrow> p = q"
  using white_space_codes by (auto simp: list_all_iff)

lemma space_len_eq_0: "space_len s = 0 \<longleftrightarrow> (\<forall>p \<in> set white_space. \<not> has_prefix s p)"
proof (cases "find (has_prefix s) white_space")
  case None
  then have "\<forall>p \<in> set white_space. \<not> has_prefix s p" by (auto simp: find_None_iff)
  with None show ?thesis by (simp add: space_len_def)
next
  case (Some p)
  then have p: "p \<in> set white_space" "has_prefix s p" by (auto simp: find_Some_iff)
  then have "p \<noteq> []" using white_space_nonempty by blast
  with Some p show ?thesis by (auto simp: space_len_def)
qed

lemma prefixes_comparable:
  "has_prefix s p \<Longrightarrow> has_prefix s q \<Longrightarrow> has_prefix q p \<or> has_prefix p q"
  by (auto simp: has_prefix_iff append_eq_append_conv2)

lemma space_len_eqI: "p \<in> set white_space \<Longrightarrow> has_prefix s p \<Longrightarrow> space_len s = length p"
proof (cases "find (has_prefix s) white_space")
  case None
  assume "p \<in> set white_space" "has_prefix s p"
  with None show ?thesis by (simp add: find_None_iff)
next
  case (Some q)
  assume p: "p \<in> set white_space" "has_prefix s p"
  from Some have q: "q \<in> set white_space" "has_prefix s q" by (auto simp: find_Some_iff)
  with p have "q = p" using prefixes_comparable white_space_unique by metis
  with Some show ?thesis by (simp add: space_len_def)
qed

lemma space_len_Nil [simp]: "space_len [] = 0"
  using white_space_nonempty by (auto simp: space_len_eq_0)

lemma space_len_append: "space_len s \<noteq> 0 \<Longrightarrow> space_len (s @ t) = space_len s"
proof -
  assume "space_len s \<noteq> 0"
  then obtain p where p: "p \<in> set white_space" "has_prefix s p" by (auto simp: space_len_eq_0)
  then have "has_prefix (s @ t) p" by (auto simp: has_prefix_iff)
  with p show ?thesis by (simp add: space_len_eqI)
qed

lemma space_len_ascii:
  assumes "s \<noteq> []" "c = 32 \<or> c = 44"
  shows "space_len (s @ c # t) = space_len s"
proof (cases "space_len s = 0")
  case True
  have "\<not> has_prefix (s @ c # t) p" if p: "p \<in> set white_space" for p
  proof
    assume pre: "has_prefix (s @ c # t) p"
    from True p have "\<not> has_prefix s p" by (simp add: space_len_eq_0)
    moreover have "has_prefix p (s @ [c]) \<or> has_prefix s p"
      using pre by (auto simp: has_prefix_iff append_eq_append_conv2 Cons_eq_append_conv)
    ultimately obtain u where "p = s @ c # u" by (auto simp: has_prefix_iff)
    with assms(1) have "c \<in> set (tl p)" by (cases s) auto
    with white_space_tl [OF p assms(2)] show False by simp
  qed
  then have "space_len (s @ c # t) = 0" by (simp add: space_len_eq_0)
  with True show ?thesis by simp
next
  case False
  then show ?thesis by (rule space_len_append)
qed

lemma solid_Nil [simp]: "solid []"
  by (simp add: solid_def)

lemma solid_Cons: "solid (b # bs) \<longleftrightarrow> space_len (b # bs) = 0 \<and> solid bs"
proof -
  have "(\<forall>i < Suc n. P i) \<longleftrightarrow> P 0 \<and> (\<forall>i < n. P (Suc i))" for n and P :: "nat \<Rightarrow> bool"
    using less_Suc_eq_0_disj by auto
  then show ?thesis by (simp add: solid_def)
qed

lemma solid_Cons_appendD: "space_len ((x # xs) @ ys) = 0 \<Longrightarrow> space_len (x # xs) = 0"
  using space_len_append [of "x # xs" ys] by (cases "space_len (x # xs) = 0") simp_all

lemma solid_appendD: "solid (xs @ ys) \<Longrightarrow> solid xs \<and> solid ys"
proof (induction xs)
  case (Cons x xs)
  then show ?case using solid_Cons_appendD [of x xs ys] by (simp add: solid_Cons)
qed simp

lemma solid_sep: "c = 32 \<or> c = 44 \<Longrightarrow> solid xs \<Longrightarrow> solid (xs @ c # ys) \<longleftrightarrow> solid (c # ys)"
proof (induction xs)
  case (Cons x xs)
  have "space_len ((x # xs) @ c # ys) = space_len (x # xs)"
    using Cons.prems(1) by (intro space_len_ascii) auto
  with Cons show ?case by (simp add: solid_Cons)
qed simp

lemma space_len_comma [simp]: "space_len (44 # s) = 0"
  by (simp add: space_len_def white_space_def)

lemma space_len_space [simp]: "space_len (32 # s) = 1"
  by (simp add: space_len_def white_space_def)

lemma solid_join_comma: "\<forall>f \<in> set fs. solid f \<Longrightarrow> solid (join_with [44] fs)"
proof (induction fs)
  case (Cons f fs)
  then show ?case
    by (cases fs) (simp_all add: solid_sep solid_Cons)
qed simp

lemma solid_split: "solid s \<Longrightarrow> \<forall>f \<in> set (split_on c s). solid f"
proof (induction s)
  case (Cons x s)
  have "solid s" using Cons.prems by (simp add: solid_Cons)
  note IH = Cons.IH [OF this]
  obtain y ys where y: "split_on c s = y # ys" by (cases "split_on c s") auto
  have "s = y @ (if ys = [] then [] else [c] @ join_with [c] ys)"
    using join_split [of c s] by (cases ys) (simp_all add: y)
  then have "solid ((x # y) @ (if ys = [] then [] else [c] @ join_with [c] ys))"
    using Cons.prems by simp
  then have "solid (x # y)" by (blast dest: solid_appendD)
  with IH y show ?case by (auto simp: solid_Cons)
qed simp

definition no_space_before :: "bytes \<Rightarrow> bytes \<Rightarrow> bool" where
  "no_space_before cur s \<longleftrightarrow> (\<forall>i < length cur. space_len (drop i cur @ s) = 0)"

lemma no_space_before_solid: "no_space_before cur s \<Longrightarrow> solid cur"
proof -
  assume n: "no_space_before cur s"
  show "solid cur"
    unfolding solid_def
  proof (intro allI impI)
    fix i assume "i < length cur"
    with n have "space_len (drop i cur @ s) = 0" by (simp add: no_space_before_def)
    then show "space_len (drop i cur) = 0"
      using space_len_append [of "drop i cur" s] by (cases "space_len (drop i cur) = 0") simp_all
  qed
qed

lemma no_space_before_step:
  "no_space_before cur (b # bs) \<Longrightarrow> space_len (b # bs) = 0 \<Longrightarrow> no_space_before (cur @ [b]) bs"
  by (auto simp: no_space_before_def less_Suc_eq)

lemma fields_from_solid:
  "no_space_before cur s \<Longrightarrow> f \<in> set (fields_from cur s) \<Longrightarrow> f \<noteq> [] \<and> solid f \<and> set f \<subseteq> set cur \<union> set s"
proof (induction cur s rule: fields_from.induct)
  case (1 cur)
  from 1(2) have "cur \<noteq> []" "f = cur" by (simp_all add: emit_def split: if_splits)
  with no_space_before_solid [OF 1(1)] show ?case by simp
next
  case (2 cur b bs)
  show ?case
  proof (cases "space_len (b # bs) = 0")
    case True
    with 2(4) have "f \<in> set (fields_from (cur @ [b]) bs)" by simp
    from 2(1) [OF refl True no_space_before_step [OF 2(3) True] this] show ?thesis by auto
  next
    case False
    let ?rest = "drop (space_len (b # bs) - 1) bs"
    from False 2(4) have "f \<in> set (emit cur) \<or> f \<in> set (fields_from [] ?rest)"
      by (simp add: Let_def)
    then show ?thesis
    proof
      assume "f \<in> set (emit cur)"
      then have "cur \<noteq> []" "f = cur" by (simp_all add: emit_def split: if_splits)
      with no_space_before_solid [OF 2(3)] show ?thesis by auto
    next
      assume f: "f \<in> set (fields_from [] ?rest)"
      have "f \<noteq> [] \<and> solid f \<and> set f \<subseteq> set [] \<union> set ?rest"
        by (rule 2(2) [OF refl False _ f]) (simp add: no_space_before_def)
      then show ?thesis using set_drop_subset [of "space_len (b # bs) - 1" bs] by auto
    qed
  qed
qed

lemma Fields_solid: "f \<in> set (Fields s) \<Longrightarrow> f \<noteq> [] \<and> solid f \<and> set f \<subseteq> set s"
  using fields_from_solid [of "[]" s f] by (simp add: Fields_def no_space_before_def)

lemma fields_from_run:
  "solid f \<Longrightarrow> fields_from cur (f @ 32 # s) = emit (cur @ f) @ fields_from [] s"
proof (induction f arbitrary: cur)
  case Nil
  show ?case by (simp add: Let_def)
next
  case (Cons b f)
  have "space_len ((b # f) @ 32 # s) = space_len (b # f)" by (rule space_len_ascii) simp_all
  with Cons show ?case by (simp add: solid_Cons Let_def)
qed

lemma fields_from_last: "solid f \<Longrightarrow> fields_from cur f = emit (cur @ f)"
  by (induction f arbitrary: cur) (simp_all add: solid_Cons Let_def)

lemma Fields_join:
  "\<forall>f \<in> set fs. solid f \<Longrightarrow> Fields (join_with [32] fs) = filter (\<lambda>f. f \<noteq> []) fs"
proof (induction fs)
  case Nil
  show ?case by (simp add: Fields_def emit_def)
next
  case (Cons f fs)
  then show ?case
    by (cases fs) (simp_all add: Fields_def fields_from_last fields_from_run emit_def)
qed

section \<open>Patching\<close>

definition verityPatterns :: "bytes list" where
  "verityPatterns = [str ''verifyatboot'', str ''verify'', str ''avb_keys'', str ''avb'',
     str ''support_scfs'', str ''fsverity'']"

definition encryptionPatterns :: "bytes list" where
  "encryptionPatterns = [str ''forceencrypt'', str ''forcefdeorfbe'', str ''fileencryption'']"

definition should_remove :: "bytes list \<Rightarrow> bytes \<Rightarrow> bool" where
  "should_remove patterns flag \<longleftrightarrow> list_ex (has_prefix flag) patterns"

definition new_flags :: "bytes list \<Rightarrow> bytes \<Rightarrow> bytes list" where
  "new_flags patterns flags = filter (\<lambda>flag. \<not> should_remove patterns flag) (split_on 44 flags)"

definition patch_line :: "bytes list \<Rightarrow> bytes \<Rightarrow> bytes go" where
  "patch_line patterns line =
     (if line = [] \<or> hd line = 35 then Inr line
      else let flds = Fields line in
        if length flds < 4 then Inr line
        else go_bind (go_index flds 4) (\<lambda>flags.
          let newLine = join_with [32] [join_with [32] (take 4 flds),
                          join_with [44] (new_flags patterns flags)]
          in Inr (if 5 < length flds then newLine @ [32] @ join_with [32] (drop 5 flds)
                  else newLine)))"

definition patchFstab :: "bytes \<Rightarrow> bytes list \<Rightarrow> bytes go" where
  "patchFstab fstabContent patterns =
     go_bind (go_map (patch_line patterns) (split_on 10 fstabContent))
       (\<lambda>result. Inr (join_with [10] result))"

definition PatchVerity :: "bytes \<Rightarrow> bytes go" where
  "PatchVerity fstabContent = patchFstab fstabContent verityPatterns"

definition PatchEncryption :: "bytes \<Rightarrow> bytes go" where
  "PatchEncryption fstabContent = patchFstab fstabContent encryptionPatterns"

text \<open>A line the patcher looks into, and one it rewrites.\<close>

definition active :: "bytes \<Rightarrow> bool" where
  "active line \<longleftrightarrow> line \<noteq> [] \<and> hd line \<noteq> 35"

definition rewritten :: "bytes \<Rightarrow> bool" where
  "rewritten line \<longleftrightarrow> active line \<and> 4 < length (Fields line)"

definition kept :: "bytes list \<Rightarrow> bytes \<Rightarrow> bytes" where
  "kept patterns line = join_with [44] (new_flags patterns (Fields line ! 4))"

lemma five_fields: "4 < length xs \<Longrightarrow> \<exists>a b c d e r. xs = a # b # c # d # e # r"
  by (auto simp: numeral_eq_Suc Suc_less_eq2 length_Suc_conv Suc_le_length_iff less_eq_Suc_le)

lemma patch_line_cases:
  "patch_line p l =
     (if active l \<and> length (Fields l) = 4 then Inl (Panic IndexOutOfRange)
      else if rewritten l then
        Inr (join_with [32] (take 4 (Fields l) @ kept p l # drop 5 (Fields l)))
      else Inr l)"
proof (cases "rewritten l")
  case True
  then obtain a b c d e r where F: "Fields l = a # b # c # d # e # r"
    using five_fields [of "Fields l"] by (auto simp: rewritten_def)
  show ?thesis
    using True by (cases r) (simp_all add: patch_line_def rewritten_def active_def kept_def Let_def F go_index_def)
next
  case False
  then show ?thesis
    by (auto simp: patch_line_def rewritten_def active_def Let_def go_index_def)
qed

text \<open>
  C21. Patching panics exactly when some line that is neither empty nor a comment has exactly
  four fields (the guard asks for four, the code reads the fifth); in every other case it
  returns a result.
\<close>

theorem patchFstab_panics_iff:
  "(patchFstab s p = Inl (Panic IndexOutOfRange)
      \<longleftrightarrow> (\<exists>l \<in> set (split_on 10 s). active l \<and> length (Fields l) = 4))
   \<and> ((\<exists>r. patchFstab s p = Inr r)
      \<longleftrightarrow> \<not> (\<exists>l \<in> set (split_on 10 s). active l \<and> length (Fields l) = 4))"
proof -
  let ?bad = "\<exists>l \<in> set (split_on 10 s). active l \<and> length (Fields l) = 4"
  have tot: "(\<exists>ys. go_map (patch_line p) (split_on 10 s) = Inr ys) \<longleftrightarrow> \<not> ?bad"
    unfolding go_map_total by (auto simp: patch_line_cases split: if_splits)
  show ?thesis
  proof (cases "go_map (patch_line p) (split_on 10 s)")
    case (Inl e)
    then obtain l where "patch_line p l = Inl e" using go_map_Inl by blast
    then have "e = Panic IndexOutOfRange" by (auto simp: patch_line_cases split: if_splits)
    with Inl tot show ?thesis by (simp add: patchFstab_def)
  next
    case (Inr ys)
    with tot show ?thesis by (simp add: patchFstab_def)
  qed
qed

section \<open>What patching does to the lines\<close>

lemma solid_parts: "solid f \<Longrightarrow> solid (join_with [44] (new_flags p f))"
  using solid_split [of f 44] by (intro solid_join_comma) (auto simp: new_flags_def)

lemma set_join: "set (join_with sep xs) \<subseteq> set sep \<union> \<Union> (set (map set xs))"
proof (induction xs)
  case (Cons x xs)
  then show ?case by (cases xs) auto
qed simp

lemma set_split: "x \<in> set (split_on c s) \<Longrightarrow> set x \<subseteq> set s"
proof (induction s arbitrary: x)
  case (Cons b s)
  obtain y ys where "split_on c s = y # ys" by (cases "split_on c s") auto
  with Cons show ?case by (fastforce split: if_splits)
qed auto

definition patched_fields :: "bytes list \<Rightarrow> bytes \<Rightarrow> bytes list" where
  "patched_fields p l = take 4 (Fields l) @ emit (kept p l) @ drop 5 (Fields l)"

lemma kept_solid:
  assumes "rewritten l"
  shows "solid (kept p l) \<and> set (kept p l) \<subseteq> set l \<union> {44}"
proof -
  have "Fields l ! 4 \<in> set (Fields l)" using assms by (simp add: rewritten_def)
  then have f: "solid (Fields l ! 4)" "set (Fields l ! 4) \<subseteq> set l"
    using Fields_solid by blast+
  have "set (kept p l) \<subseteq> {44} \<union> set (Fields l ! 4)"
    using set_join [of "[44]" "new_flags p (Fields l ! 4)"] set_split [of _ 44 "Fields l ! 4"]
    by (fastforce simp: kept_def new_flags_def)
  with f solid_parts [OF f(1)] show ?thesis by (auto simp: kept_def)
qed

lemma Fields_rewritten:
  assumes "rewritten l"
  shows "Fields (join_with [32] (take 4 (Fields l) @ kept p l # drop 5 (Fields l))) = patched_fields p l"
proof -
  have F: "\<forall>f \<in> set (Fields l). f \<noteq> [] \<and> solid f" using Fields_solid by blast
  have t: "\<forall>f \<in> set (take n (Fields l)). f \<noteq> [] \<and> solid f"
    and d: "\<forall>f \<in> set (drop n (Fields l)). f \<noteq> [] \<and> solid f" for n
    using F by (auto dest: in_set_takeD in_set_dropD)
  have "filter (\<lambda>f. f \<noteq> []) (take 4 (Fields l)) = take 4 (Fields l)"
    "filter (\<lambda>f. f \<noteq> []) (drop 5 (Fields l)) = drop 5 (Fields l)"
    using t d by (auto intro: filter_True)
  moreover have "\<forall>f \<in> set (take 4 (Fields l) @ kept p l # drop 5 (Fields l)). solid f"
    using t d kept_solid [OF assms] by auto
  ultimately show ?thesis
    by (simp add: Fields_join patched_fields_def emit_def)
qed

lemma patch_line_bytes: "patch_line p l = Inr l' \<Longrightarrow> set l' \<subseteq> set l \<union> {32, 44}"
proof -
  assume "patch_line p l = Inr l'"
  then consider "l' = l" | "rewritten l" "l' = join_with [32] (take 4 (Fields l) @ kept p l # drop 5 (Fields l))"
    unfolding patch_line_cases by (metis Inl_Inr_False sum.inject(2))
  then show ?thesis
  proof cases
    case 1
    then show ?thesis by blast
  next
    case 2
    define fs where "fs = take 4 (Fields l) @ kept p l # drop 5 (Fields l)"
    have "set f \<subseteq> set l \<union> {44}" if "f \<in> set (Fields l)" for f using Fields_solid [OF that] by blast
    moreover have "set (kept p l) \<subseteq> set l \<union> {44}" using kept_solid [OF 2(1)] by blast
    moreover have "set fs \<subseteq> set (Fields l) \<union> {kept p l}"
      unfolding fs_def by (auto dest: in_set_takeD in_set_dropD)
    ultimately have "\<Union> (set (map set fs)) \<subseteq> set l \<union> {44}" unfolding set_map by blast
    moreover have "set l' \<subseteq> {32} \<union> \<Union> (set (map set fs))"
      using set_join [of "[32]" fs] unfolding 2(2) fs_def by simp
    ultimately show ?thesis by blast
  qed
qed

lemma patchFstab_lines:
  assumes "patchFstab s p = Inr s'"
  shows "list_all2 (\<lambda>l l'. patch_line p l = Inr l') (split_on 10 s) (split_on 10 s')"
proof -
  from assms obtain ls where ls: "go_map (patch_line p) (split_on 10 s) = Inr ls" "s' = join_with [10] ls"
    by (auto simp: patchFstab_def go_bind_Inr_iff)
  then have rel: "list_all2 (\<lambda>l l'. patch_line p l = Inr l') (split_on 10 s) ls"
    by (simp add: go_map_Inr_iff)
  have "10 \<notin> set l'" if l': "l' \<in> set ls" for l'
  proof -
    from rel l' obtain l where l: "l \<in> set (split_on 10 s)" "patch_line p l = Inr l'"
      by (auto simp: list_all2_conv_all_nth in_set_conv_nth) (metis nth_mem)
    have "10 \<notin> set l" using l(1) split_on_no_sep by metis
    with patch_line_bytes [OF l(2)] show ?thesis by auto
  qed
  moreover have "ls \<noteq> []" using rel by auto
  ultimately have "split_on 10 s' = ls" unfolding ls(2) by (intro split_join) auto
  with rel show ?thesis by simp
qed

text \<open>
  C4. The result of a successful patch has the same number of lines. A rewritten line keeps
  every field except the fifth, which loses exactly the flags that start with a pattern (the
  field disappears when nothing is left of it), with its fields set apart anew; every other line
  is unchanged.
\<close>

theorem patchFstab_effect:
  assumes "patchFstab s p = Inr s'"
  shows "list_all2 (\<lambda>l l'. if rewritten l
             then Fields l' = take 4 (Fields l) @ emit (kept p l) @ drop 5 (Fields l)
               \<and> kept p l = join_with [44] (filter (\<lambda>f. \<forall>q \<in> set p. \<not> has_prefix f q) (split_on 44 (Fields l ! 4)))
             else l' = l)
           (split_on 10 s) (split_on 10 s')"
proof (rule list_all2_mono [OF patchFstab_lines [OF assms]])
  fix l l' assume "patch_line p l = Inr l'"
  then show "if rewritten l then Fields l' = take 4 (Fields l) @ emit (kept p l) @ drop 5 (Fields l)
        \<and> kept p l = join_with [44] (filter (\<lambda>f. \<forall>q \<in> set p. \<not> has_prefix f q) (split_on 44 (Fields l ! 4)))
      else l' = l"
    using Fields_rewritten [of l p]
    by (auto simp: patch_line_cases patched_fields_def kept_def new_flags_def should_remove_def list_ex_iff
        split: if_splits)
qed

theorem patchFstab_effect_witness:
  "split_on 10 (str ''a b c d verify'') = [str ''a b c d verify''] \<and> Fields (str ''a b c d '') = [str ''a'', str ''b'', str ''c'', str ''d'']"
proof -
  have p: "patchFstab (str ''a b c d verify'') verityPatterns = Inr (str ''a b c d '')" by code_simp
  have l: "split_on 10 (str ''a b c d verify'') = [str ''a b c d verify'']"
    "split_on 10 (str ''a b c d '') = [str ''a b c d '']" "rewritten (str ''a b c d verify'')"
    "take 4 (Fields (str ''a b c d verify'')) @ emit (kept verityPatterns (str ''a b c d verify''))
       @ drop 5 (Fields (str ''a b c d verify'')) = [str ''a'', str ''b'', str ''c'', str ''d'']"
    by code_simp+
  show ?thesis using patchFstab_effect [OF p] by (simp add: l)
qed

section \<open>Patching again\<close>

lemma new_flags_join: "new_flags p (kept p l) = new_flags p (Fields l ! 4)" if "kept p l \<noteq> []"
proof -
  let ?n = "new_flags p (Fields l ! 4)"
  have "?n \<noteq> []" using that by (auto simp: kept_def)
  moreover have "\<forall>f \<in> set ?n. 44 \<notin> set f"
    using split_on_no_sep [of 44 "Fields l ! 4"] by (simp add: new_flags_def)
  ultimately have "split_on 44 (kept p l) = ?n" by (simp add: kept_def split_join)
  then show ?thesis by (simp add: new_flags_def)
qed

lemma patch_line_twice:
  assumes "patch_line p l = Inr l'" "rewritten l \<longrightarrow> kept p l \<noteq> []"
  shows "patch_line p l' = Inr l'"
proof (cases "rewritten l")
  case True
  let ?parts = "take 4 (Fields l) @ kept p l # drop 5 (Fields l)"
  from True assms(1) have l': "l' = join_with [32] ?parts" by (auto simp: patch_line_cases rewritten_def)
  then have F: "Fields l' = ?parts" using Fields_rewritten [OF True] assms(2) True
    by (simp add: patched_fields_def emit_def)
  have "4 < length (Fields l)" using True by (simp add: rewritten_def)
  then have fields: "length (Fields l') \<noteq> 4" "take 4 (Fields l') = take 4 (Fields l)" "Fields l' ! 4 = kept p l"
    "drop 5 (Fields l') = drop 5 (Fields l)"
    by (simp_all add: F nth_append)
  then have "kept p l' = kept p l" using new_flags_join assms(2) True by (simp add: kept_def)
  with fields l' show ?thesis by (auto simp: patch_line_cases)
next
  case False
  with assms(1) show ?thesis by (auto simp: patch_line_cases split: if_splits)
qed

text \<open>The example line of the tests below.\<close>

definition fstab_line :: bytes where
  "fstab_line = str ''/dev/sys  /system ext4 ro wait,verify,avb=vbmeta 0''"

lemma fstab_line_patched:
  "patchFstab fstab_line verityPatterns = Inr (str ''/dev/sys /system ext4 ro wait 0'')"
  "rewritten fstab_line" "kept verityPatterns fstab_line = str ''wait''" "split_on 10 fstab_line = [fstab_line]"
  by code_simp+

text \<open>
  C38. Patching with the same patterns a second time changes nothing, as long as no rewritten
  line loses its last flag.
\<close>

theorem patchFstab_idempotent:
  assumes "patchFstab s p = Inr s'"
    and "\<forall>l \<in> set (split_on 10 s). rewritten l \<longrightarrow> kept p l \<noteq> []"
  shows "patchFstab s' p = Inr s'"
proof -
  have "patch_line p (split_on 10 s' ! i) = Inr (split_on 10 s' ! i)" if i: "i < length (split_on 10 s')" for i
    using patchFstab_lines [OF assms(1)] i assms(2)
    by (intro patch_line_twice [of p "split_on 10 s ! i"]) (simp_all add: list_all2_conv_all_nth)
  then have "list_all2 (\<lambda>l l'. patch_line p l = Inr l') (split_on 10 s') (split_on 10 s')"
    by (simp add: list_all2_conv_all_nth)
  then have "go_map (patch_line p) (split_on 10 s') = Inr (split_on 10 s')"
    by (simp add: go_map_Inr_iff)
  then show ?thesis by (simp add: patchFstab_def)
qed

theorem patchFstab_idempotent_witness:
  "patchFstab (str ''/dev/sys /system ext4 ro wait 0'') verityPatterns = Inr (str ''/dev/sys /system ext4 ro wait 0'')"
  by (rule patchFstab_idempotent [OF fstab_line_patched(1)]) (simp add: fstab_line_patched(3,4))

text \<open>
  A rewritten line of five fields whose flags all go leaves a line of four fields: unless
  that line reads as a comment, patching it again, with any patterns, panics. \<open>Patch\<close> of
  \<open>cpio.go\<close> applies the two pattern lists one after the other.
\<close>

theorem patch_line_again_panics:
  assumes "patch_line p l = Inr l'" "rewritten l" "length (Fields l) = 5" "kept p l = []" "active l'"
  shows "patch_line q l' = Inl (Panic IndexOutOfRange)"
proof -
  have "l' = join_with [32] (take 4 (Fields l) @ kept p l # drop 5 (Fields l))"
    using assms(1,2) by (auto simp: patch_line_cases rewritten_def)
  then have "Fields l' = patched_fields p l" using Fields_rewritten [OF assms(2)] by simp
  then have "length (Fields l') = 4" using assms(3,4) by (simp add: patched_fields_def emit_def)
  with assms(5) show ?thesis by (simp add: patch_line_cases)
qed

theorem patch_line_again_panics_witness:
  "patch_line encryptionPatterns (str ''a b c d '') = Inl (Panic IndexOutOfRange)"
proof (rule patch_line_again_panics)
  show "patch_line verityPatterns (str ''a b c d verify'') = Inr (str ''a b c d '')" by code_simp
  show "rewritten (str ''a b c d verify'')" by code_simp
  show "length (Fields (str ''a b c d verify'')) = 5" by code_simp
  show "kept verityPatterns (str ''a b c d verify'') = []" by code_simp
  show "active (str ''a b c d '')" by code_simp
qed

end
