(* ===== verification/Compress_Tool.thy ===== *)
theory Compress_Tool
  imports Format Go_Binary
begin

text \<open>
  \<open>compress.go\<close>: the LZ4 legacy frame writer \<open>Lz4HCWriter\<close>, the choice of a codec, the two
  commands \<open>Compress\<close> and \<open>Decompress\<close> with their file names, \<open>DecompressToFd\<close>, \<open>Xz\<close> and
  \<open>Unxz\<close>. The codecs themselves (gzip, xz, lzma, bzip2, lz4 frames and the lz4 block
  compressor) are library code and parameters of the model.
\<close>

section \<open>The codecs\<close>

datatype lib = LibXz | LibLzma | LibBzip2 | LibLz4 | LibGzip

text \<open>
  \<open>lib_enc l ws\<close> is what a writer of library \<open>l\<close> puts out for the writes \<open>ws\<close> and a close, and
  whether every write succeeded; \<open>None\<close> when the constructor fails. \<open>lib_put l ws\<close> is the part
  that has been put out after the writes \<open>ws\<close>, before the close. \<open>lib_dec l s\<close> is what a
  reader over the bytes \<open>s\<close> delivers and whether it ends with \<open>io.EOF\<close>; \<open>None\<close> when the
  constructor fails. \<open>compress_block d\<close> is \<open>CompressBlock\<close>: \<open>None\<close> for an error, the empty list for
  the size 0. \<open>xz_write d\<close> is what \<open>xz.NewWriter\<close> and one \<open>Write\<close> have put out, and
  \<open>xz_close d\<close> what \<open>Close\<close> adds.
\<close>

record codecs =
  lib_enc :: "lib \<Rightarrow> bytes list \<Rightarrow> (bytes \<times> bool) option"
  lib_put :: "lib \<Rightarrow> bytes list \<Rightarrow> bytes"
  lib_dec :: "lib \<Rightarrow> bytes \<Rightarrow> (bytes \<times> bool) option"
  compress_block :: "bytes \<Rightarrow> bytes option"
  xz_write :: "bytes \<Rightarrow> bytes option"
  xz_close :: "bytes \<Rightarrow> bytes"

section \<open>The LZ4 legacy writer\<close>

record Lz4HCWriter =
  sink :: bytes
  lg_variant :: bool
  in_total :: u32

definition NewLz4HCWriter :: "bool \<Rightarrow> Lz4HCWriter" where
  "NewLz4HCWriter l = \<lparr>sink = [0x02, 0x21, 0x4c, 0x18], lg_variant = l, in_total = 0\<rparr>"

text \<open>A write either ends the process or appends the size and the block.\<close>

definition Lz4HC_Write :: "codecs \<Rightarrow> Lz4HCWriter \<Rightarrow> bytes \<Rightarrow> Lz4HCWriter \<times> unit go" where
  "Lz4HC_Write cs z data =
     (case compress_block cs data of
        None \<Rightarrow> (z, Inl Fatal)
      | Some b \<Rightarrow>
          let block_sz = (of_nat (length b) :: u32) in
          if block_sz = 0 then (z, Inl Fatal)
          else (z\<lparr>sink := sink z @ put_u32 block_sz @ take (unat block_sz) b,
                 in_total := in_total z + of_nat (length data)\<rparr>, Inr ()))"

definition Lz4HC_Close :: "Lz4HCWriter \<Rightarrow> Lz4HCWriter" where
  "Lz4HC_Close z = (if lg_variant z then z\<lparr>sink := sink z @ put_u32 (in_total z)\<rparr> else z)"

fun Lz4HC_writes :: "codecs \<Rightarrow> Lz4HCWriter \<Rightarrow> bytes list \<Rightarrow> Lz4HCWriter \<times> unit go" where
  "Lz4HC_writes cs z [] = (z, Inr ())"
| "Lz4HC_writes cs z (d # ds) =
     (case Lz4HC_Write cs z d of
        (z', Inl e) \<Rightarrow> (z', Inl e)
      | (z', Inr _) \<Rightarrow> Lz4HC_writes cs z' ds)"

section \<open>Encoders and decoders\<close>

datatype encoder = LibEncoder lib | Lz4Encoder bool | NilEncoder

fun NewEncoder :: "format_t \<Rightarrow> encoder go" where
  "NewEncoder XZ = Inr (LibEncoder LibXz)"
| "NewEncoder LZMA = Inr (LibEncoder LibLzma)"
| "NewEncoder BZIP2 = Inr (LibEncoder LibBzip2)"
| "NewEncoder LZ4 = Inr (LibEncoder LibLz4)"
| "NewEncoder LZ4_LEGACY = Inr (Lz4Encoder False)"
| "NewEncoder LZ4_LG = Inr (Lz4Encoder True)"
| "NewEncoder ZOPFLI = Inl (Panic PanicCall)"
| "NewEncoder GZIP = Inr (LibEncoder LibGzip)"
| "NewEncoder _ = Inr NilEncoder"

text \<open>A new encoder, the writes, and \<open>Close\<close>, whose error is dropped.\<close>

definition run_encoder :: "codecs \<Rightarrow> format_t \<Rightarrow> bytes list \<Rightarrow> bytes \<times> unit go" where
  "run_encoder cs t ws =
     (case NewEncoder t of
        Inl e \<Rightarrow> ([], Inl e)
      | Inr (LibEncoder l) \<Rightarrow>
          (case lib_enc cs l ws of
             None \<Rightarrow> ([], Inl Fatal)
           | Some (out, ok) \<Rightarrow> (out, if ok then Inr () else Inl Fatal))
      | Inr (Lz4Encoder b) \<Rightarrow>
          (case Lz4HC_writes cs (NewLz4HCWriter b) ws of
             (z, Inl e) \<Rightarrow> (sink z, Inl e)
           | (z, Inr _) \<Rightarrow> (sink (Lz4HC_Close z), Inr ()))
      | Inr NilEncoder \<Rightarrow> ([], Inl (Panic NilDereference)))"

fun NewDecoder :: "format_t \<Rightarrow> lib option" where
  "NewDecoder XZ = Some LibXz"
| "NewDecoder LZMA = Some LibLzma"
| "NewDecoder BZIP2 = Some LibBzip2"
| "NewDecoder LZ4 = Some LibLz4"
| "NewDecoder LZ4_LEGACY = Some LibLz4"
| "NewDecoder LZ4_LG = Some LibLz4"
| "NewDecoder ZOPFLI = Some LibGzip"
| "NewDecoder GZIP = Some LibGzip"
| "NewDecoder _ = None"

text \<open>The bytes a decoder delivers; a failing constructor ends the process.\<close>

definition run_decoder :: "codecs \<Rightarrow> format_t \<Rightarrow> bytes \<Rightarrow> bytes \<times> unit go" where
  "run_decoder cs t s =
     (case NewDecoder t of
        None \<Rightarrow> ([], Inl (Panic NilDereference))
      | Some l \<Rightarrow>
          (case lib_dec cs l s of
             None \<Rightarrow> ([], Inl Fatal)
           | Some (out, ok) \<Rightarrow> (out, if ok then Inr () else Inl Fatal)))"

definition Decode :: "codecs \<Rightarrow> format_t \<Rightarrow> bytes \<Rightarrow> bytes go" where
  "Decode cs t s =
     (case NewDecoder t of
        None \<Rightarrow> Inl (Err DecoderNotInitialized)
      | Some l \<Rightarrow>
          (case lib_dec cs l s of
             None \<Rightarrow> Inl Fatal
           | Some (out, ok) \<Rightarrow> if ok then Inr out else Inl (Err CodecError)))"

section \<open>Files and standard streams\<close>

text \<open>
  Regular files by name; standard input is the list of what its reads return, and \<open>Seek\<close>
  works on it only when it is a file.
\<close>

record io =
  Files :: "bytes \<rightharpoonup> bytes"
  CanCreate :: "bytes \<Rightarrow> bool"
  Stdin :: "bytes list"
  StdinSeeks :: bool
  Stdout :: bytes

datatype target = ToStdout | ToFile bytes

fun put_out :: "target \<Rightarrow> bytes \<Rightarrow> io \<Rightarrow> io" where
  "put_out ToStdout bs w = w\<lparr>Stdout := Stdout w @ bs\<rparr>"
| "put_out (ToFile f) bs w =
     w\<lparr>Files := (Files w)(f \<mapsto> (case Files w f of None \<Rightarrow> [] | Some c \<Rightarrow> c) @ bs)\<rparr>"

definition os_Create :: "bytes \<Rightarrow> io \<Rightarrow> (io \<times> target) go" where
  "os_Create f w =
     (if CanCreate w f then Inr (w\<lparr>Files := (Files w)(f \<mapsto> [])\<rparr>, ToFile f) else Inl Fatal)"

definition os_Remove :: "bytes \<Rightarrow> io \<Rightarrow> io" where
  "os_Remove f w = w\<lparr>Files := (Files w)(f := None)\<rparr>"

function chunks :: "nat \<Rightarrow> 'a list \<Rightarrow> 'a list list" where
  "chunks n xs = (if n = 0 \<or> xs = [] then [] else take n xs # chunks n (drop n xs))"
  by pat_completeness auto
termination
  by (relation "measure (\<lambda>(n, xs). length xs)") auto

declare chunks.simps [simp del]

lemma concat_chunks [simp]: "0 < n \<Longrightarrow> concat (chunks n xs) = xs"
  by (induction n xs rule: chunks.induct) (subst chunks.simps, simp)

definition std_name :: bytes where
  "std_name = str ''-''"

section \<open>Compress\<close>

text \<open>
  The loop reads up to 4096 bytes and writes what it got before it looks at the error, so
  the read that meets the end of the file writes an empty slice.
\<close>

definition compress_out :: "io \<Rightarrow> format_t \<Rightarrow> bytes \<Rightarrow> bytes \<Rightarrow> ((io \<times> target) \<times> bool) go" where
  "compress_out w t infile outfile =
     (if outfile = [] then
        if infile = std_name then Inr ((w, ToStdout), False)
        else go_bind (os_Create (infile @ Fmt2Ext t) w) (\<lambda>r. Inr (r, True))
      else if outfile = std_name then Inr ((w, ToStdout), False)
      else go_bind (os_Create outfile w) (\<lambda>r. Inr (r, False)))"

text \<open>
  What the encoder has put out after the writes \<open>ws\<close>, and whether it is still going.
\<close>

definition encoder_put :: "codecs \<Rightarrow> format_t \<Rightarrow> bytes list \<Rightarrow> bytes \<times> bool" where
  "encoder_put cs t ws =
     (case NewEncoder t of
        Inr (LibEncoder l) \<Rightarrow>
          (case lib_enc cs l ws of
             Some (_, True) \<Rightarrow> (lib_put cs l ws, True)
           | _ \<Rightarrow> ([], False))
      | Inr (Lz4Encoder b) \<Rightarrow>
          (case Lz4HC_writes cs (NewLz4HCWriter b) ws of
             (z, Inl _) \<Rightarrow> (sink z, False)
           | (z, Inr _) \<Rightarrow> (sink z, True))
      | _ \<Rightarrow> ([], False))"

text \<open>
  When the output is the input file, creating it has emptied the file, and the loop reads back
  what its own encoder puts out. A library writer that holds its output back meets the end at
  once; the LZ4 legacy writer puts out at least five bytes for each read and never gets there,
  so the file grows until a write fails. \<open>max_file\<close>, the largest offset of a Linux file, bounds
  that (a full disk ends it earlier in the same way). The result: the writes made, and whether
  the loop ended by such a failure.
\<close>

definition max_file :: nat where
  "max_file = 2 ^ 63 - 1"

function self_reads :: "codecs \<Rightarrow> format_t \<Rightarrow> bytes list \<Rightarrow> nat \<Rightarrow> bytes list \<times> bool" where
  "self_reads cs t ws pos =
     (let (content, going) = encoder_put cs t ws; got = take 4096 (drop pos content) in
      if \<not> going then (ws, False)
      else if max_file < length content then (ws, True)
      else if got = [] then (ws @ [[]], False)
      else self_reads cs t (ws @ [got]) (pos + length got))"
  by pat_completeness auto
termination
  by (relation "measure (\<lambda>(cs, t, ws, pos). max_file - pos)") auto

declare self_reads.simps [simp del]

definition Compress :: "codecs \<Rightarrow> io \<Rightarrow> bytes \<Rightarrow> bytes \<Rightarrow> bytes \<Rightarrow> io \<times> unit go" where
  "Compress cs w method infile outfile =
     (let t = Name2Fmt method in
      if t = UNKNOWN then (w, Inl Fatal)
      else if infile \<noteq> std_name \<and> Files w infile = None then (w, Inl Fatal)
      else
        case compress_out w t infile outfile of
          Inl e \<Rightarrow> (w, Inl e)
        | Inr ((w1, out), rm_in) \<Rightarrow>
            let (writes, full) =
              (if out = ToFile infile then self_reads cs t [] 0
               else ((if infile = std_name then Stdin w1 else chunks 4096 (the (Files w1 infile))) @ [[]], False)) in
            if full then (put_out out (fst (encoder_put cs t writes)) w1, Inl Fatal)
            else
              (case run_encoder cs t writes of
                 (bs, Inl e) \<Rightarrow> (put_out out bs w1, Inl e)
               | (bs, Inr _) \<Rightarrow>
                   (if rm_in then os_Remove infile (put_out out bs w1) else put_out out bs w1, Inr ())))"

section \<open>Decompress\<close>

text \<open>\<open>filepath.Ext\<close>: the suffix from the last dot of the last element of the path.\<close>

definition path_Ext :: "bytes \<Rightarrow> bytes" where
  "path_Ext p =
     (let r = takeWhile (\<lambda>c. c \<noteq> 47 \<and> c \<noteq> 46) (rev p) in
      if length r < length p \<and> rev p ! length r = 46 then 46 # rev r else [])"

definition decompress_name :: "format_t \<Rightarrow> bytes \<Rightarrow> bytes \<Rightarrow> (bytes \<times> bool) go" where
  "decompress_name t infile outfile =
     (if outfile = [] then
        if infile \<noteq> std_name \<and> path_Ext infile \<noteq> [] then
          if path_Ext infile \<noteq> Fmt2Ext t then Inl Fatal
          else Inr (trim_right infile (path_Ext infile), True)
        else Inr (infile, False)
      else Inr (outfile, False))"

text \<open>
  The first read fills the head of a zeroed buffer of 4096 bytes. \<open>Seek\<close> back fails on a
  pipe and its error is dropped: the decoder then starts after that read. A file is read
  again after the output was created, which empties it when both have the same name.
\<close>

definition first_read :: "io \<Rightarrow> bytes \<Rightarrow> bytes go" where
  "first_read w infile =
     (let reads = (if infile = std_name then Stdin w
                   else case Files w infile of None \<Rightarrow> [] | Some c \<Rightarrow> chunks 4096 c)
      in case reads of [] \<Rightarrow> Inl Fatal | r # _ \<Rightarrow> Inr r)"

definition decoder_input :: "io \<Rightarrow> bytes \<Rightarrow> bytes" where
  "decoder_input w infile =
     (if infile = std_name then (if StdinSeeks w then concat (Stdin w) else concat (tl (Stdin w)))
      else case Files w infile of None \<Rightarrow> [] | Some c \<Rightarrow> c)"

definition Decompress :: "codecs \<Rightarrow> io \<Rightarrow> bytes \<Rightarrow> bytes \<Rightarrow> io \<times> unit go" where
  "Decompress cs w infile outfile =
     (case first_read w infile of
        Inl e \<Rightarrow> (w, Inl e)
      | Inr r \<Rightarrow>
          (case CheckFmt (r @ replicate (4096 - length r) 0) [] of
             Inl e \<Rightarrow> (w, Inl e)
           | Inr t \<Rightarrow>
               if \<not> COMPRESSED t then (w, Inl Fatal)
               else
                 (case decompress_name t infile outfile of
                    Inl e \<Rightarrow> (w, Inl e)
                  | Inr (name, rm_in) \<Rightarrow>
                      (case (if name = std_name then Inr (w, ToStdout) else os_Create name w) of
                         Inl e \<Rightarrow> (w, Inl e)
                       | Inr (w1, out) \<Rightarrow>
                           (case run_decoder cs t (decoder_input w1 infile) of
                              (bs, Inl e) \<Rightarrow> (put_out out bs w1, Inl e)
                            | (bs, Inr _) \<Rightarrow>
                                (if rm_in then os_Remove infile (put_out out bs w1)
                                 else put_out out bs w1, Inr ()))))))"

section \<open>Whole buffers\<close>

definition DecompressToFd :: "codecs \<Rightarrow> bytes \<Rightarrow> bytes \<Rightarrow> (bool \<times> bytes) go" where
  "DecompressToFd cs data spare =
     go_bind (CheckFmt data spare) (\<lambda>t.
       if \<not> COMPRESSED t then Inr (False, [])
       else case Decode cs t data of
         Inl _ \<Rightarrow> Inl Fatal
       | Inr d \<Rightarrow> Inr (True, d))"

text \<open>
  \<open>Xz\<close> takes the bytes of the buffer before the deferred \<open>Close\<close> of the writer runs.
\<close>

definition Xz :: "codecs \<Rightarrow> bytes \<Rightarrow> bytes option" where
  "Xz cs data = xz_write cs data"

definition Unxz :: "codecs \<Rightarrow> bytes \<Rightarrow> bytes \<Rightarrow> bytes option go" where
  "Unxz cs data spare =
     go_bind (CheckFmt data spare) (\<lambda>t.
       if t \<noteq> XZ then Inr None
       else case lib_dec cs LibXz data of
         None \<Rightarrow> Inr None
       | Some (d, ok) \<Rightarrow> Inr (if ok then Some d else None))"

section \<open>The LZ4 legacy frame\<close>

text \<open>
  A reader of the frame after its magic: a little-endian size and that many bytes of a
  block, up to the end.
\<close>

function legacy_read :: "(bytes \<Rightarrow> bytes option) \<Rightarrow> bytes \<Rightarrow> bytes option" where
  "legacy_read unblock s =
     (if s = [] then Some []
      else case get_u32 s of
        None \<Rightarrow> None
      | Some (n, rest) \<Rightarrow>
          if length rest < unat n then None
          else case (unblock (take (unat n) rest), legacy_read unblock (drop (unat n) rest)) of
            (Some d, Some ds) \<Rightarrow> Some (d @ ds)
          | _ \<Rightarrow> None)"
  by pat_completeness auto
termination
  by (relation "measure (\<lambda>(u, s). length s)") (auto dest: u32le.dec_consumes)

declare legacy_read.simps [simp del]

definition block_ok :: "codecs \<Rightarrow> (bytes \<Rightarrow> bytes option) \<Rightarrow> bytes \<Rightarrow> bool" where
  "block_ok cs unblock d \<longleftrightarrow>
     (\<exists>c. compress_block cs d = Some c \<and> 0 < length c \<and> length c < 2 ^ 32 \<and> unblock c = Some d)"

lemma legacy_read_block:
  assumes "0 < length c" "length c < 2 ^ 32" "unblock c = Some d"
  shows "legacy_read unblock (put_u32 (of_nat (length c)) @ c @ rest) =
    map_option ((@) d) (legacy_read unblock rest)"
proof -
  have n: "unat (of_nat (length c) :: u32) = length c"
    using assms(2) by (simp add: unat_of_nat_small)
  have "c \<noteq> []" using assms(1) by simp
  then show ?thesis
    by (subst legacy_read.simps) (simp add: n assms(3) split: option.splits)
qed

lemma Lz4HC_writes_spec:
  "\<forall>d \<in> set ws. block_ok cs unblock d \<Longrightarrow>
   \<exists>frame. Lz4HC_writes cs z ws =
       (z\<lparr>sink := sink z @ frame, in_total := in_total z + of_nat (length (concat ws))\<rparr>, Inr ())
     \<and> legacy_read unblock frame = Some (concat ws)"
proof (induction ws arbitrary: z)
  case Nil
  show ?case
    by (rule exI [of _ "[]"]) (simp add: legacy_read.simps [of unblock "[]"])
next
  case (Cons d ws)
  from Cons.prems obtain c where c: "compress_block cs d = Some c" "0 < length c" "length c < 2 ^ 32" "unblock c = Some d"
    by (auto simp: block_ok_def)
  have n: "unat (of_nat (length c) :: u32) = length c"
    using c(3) by (simp add: unat_of_nat_small)
  have nz: "(of_nat (length c) :: u32) \<noteq> 0" using n c(2) by (metis unat_0 less_irrefl)
  let ?z = "z\<lparr>sink := sink z @ put_u32 (of_nat (length c)) @ c, in_total := in_total z + of_nat (length d)\<rparr>"
  have w: "Lz4HC_Write cs z d = (?z, Inr ())"
    using nz by (simp add: Lz4HC_Write_def c(1) n Let_def)
  from Cons.IH [of ?z] Cons.prems obtain frame where
    f: "Lz4HC_writes cs ?z ws = (?z\<lparr>sink := sink ?z @ frame, in_total := in_total ?z + of_nat (length (concat ws))\<rparr>, Inr ())"
       "legacy_read unblock frame = Some (concat ws)" by auto
  show ?case
  proof (intro exI conjI)
    show "Lz4HC_writes cs z (d # ws) = (z\<lparr>sink := sink z @ (put_u32 (of_nat (length c)) @ c @ frame),
        in_total := in_total z + of_nat (length (concat (d # ws)))\<rparr>, Inr ())"
      by (simp add: w f(1) ac_simps)
    show "legacy_read unblock (put_u32 (of_nat (length c)) @ c @ frame) = Some (concat (d # ws))"
      using legacy_read_block [where unblock = unblock, OF c(2-4), of frame] f(2) by simp
  qed
qed

text \<open>
  C10. When the block compressor succeeds on every chunk with a block that decompresses to the
  chunk, the encoders \<open>lz4_legacy\<close> and \<open>lz4_lg\<close> put out the legacy magic, a frame from which
  a legacy reader gets back exactly the bytes written, and, for \<open>lz4_lg\<close>, the number of
  these bytes modulo \<open>2 ^ 32\<close> in four bytes.
\<close>

theorem lz4_legacy_frame:
  assumes "\<forall>d \<in> set ws. block_ok cs unblock d"
  shows "\<exists>frame. run_encoder cs (if big then LZ4_LG else LZ4_LEGACY) ws =
      (LZ4_LEG_MAGIC @ frame @ (if big then put_u32 (of_nat (length (concat ws))) else []), Inr ())
    \<and> legacy_read unblock frame = Some (concat ws)"
proof -
  from Lz4HC_writes_spec [OF assms, of "NewLz4HCWriter big"] obtain frame where
    "Lz4HC_writes cs (NewLz4HCWriter big) ws =
      ((NewLz4HCWriter big)\<lparr>sink := LZ4_LEG_MAGIC @ frame, in_total := of_nat (length (concat ws))\<rparr>, Inr ())"
    and r: "legacy_read unblock frame = Some (concat ws)"
    by (auto simp: NewLz4HCWriter_def LZ4_LEG_MAGIC_def)
  then have "run_encoder cs (if big then LZ4_LG else LZ4_LEGACY) ws =
      (LZ4_LEG_MAGIC @ frame @ (if big then put_u32 (of_nat (length (concat ws))) else []), Inr ())"
    by (cases big) (simp_all add: run_encoder_def Lz4HC_Close_def NewLz4HCWriter_def)
  with r show ?thesis by blast
qed

text \<open>Codecs that store: enough to run the program on.\<close>

fun store_magic :: "lib \<Rightarrow> bytes" where
  "store_magic LibXz = XZ_MAGIC"
| "store_magic LibLzma = [0x5d, 0, 0, 0, 0, 0, 0, 0, 0, 0, 0, 0, 0]"
| "store_magic LibBzip2 = BZIP_MAGIC"
| "store_magic LibLz4 = LZ42_MAGIC"
| "store_magic LibGzip = GZIP1_MAGIC"

definition store_codecs :: codecs where
  "store_codecs =
     \<lparr>lib_enc = \<lambda>l ws. Some (store_magic l @ concat ws, True), lib_put = \<lambda>l ws. store_magic l @ concat ws,
      lib_dec = \<lambda>l s. if has_prefix s (store_magic l) then Some (drop (length (store_magic l)) s, True) else None,
      compress_block = \<lambda>d. Some (0 # d), xz_write = \<lambda>d. Some (XZ_MAGIC @ d), xz_close = \<lambda>d. [0]\<rparr>"

theorem lz4_legacy_frame_witness:
  "\<exists>frame. run_encoder store_codecs LZ4_LG [str ''ab'', str ''c'', []] =
      (LZ4_LEG_MAGIC @ frame @ put_u32 3, Inr ())
    \<and> legacy_read (\<lambda>c. Some (tl c)) frame = Some (str ''abc'')"
proof -
  have "\<forall>d \<in> set [str ''ab'', str ''c'', []]. block_ok store_codecs (\<lambda>c. Some (tl c)) d"
    by (simp add: block_ok_def store_codecs_def)
  from lz4_legacy_frame [OF this, of True] show ?thesis by (simp add: str_def)
qed

section \<open>Output names\<close>

lemma Fmt2Ext_dot: "COMPRESSED t \<Longrightarrow> \<exists>r. Fmt2Ext t = 46 # r \<and> 46 \<notin> set r \<and> 47 \<notin> set r"
proof -
  have "list_all (\<lambda>t. hd (Fmt2Ext t) = 46 \<and> Fmt2Ext t \<noteq> [] \<and> 46 \<notin> set (tl (Fmt2Ext t)) \<and> 47 \<notin> set (tl (Fmt2Ext t)))
      compress_formats"
    by code_simp
  moreover assume "COMPRESSED t"
  ultimately have t: "hd (Fmt2Ext t) = 46" "Fmt2Ext t \<noteq> []" "46 \<notin> set (tl (Fmt2Ext t))" "47 \<notin> set (tl (Fmt2Ext t))"
    by (auto simp: COMPRESSED_set list_all_iff)
  then have "Fmt2Ext t = 46 # tl (Fmt2Ext t)" by (cases "Fmt2Ext t") simp_all
  with t(3,4) show ?thesis by blast
qed

lemma path_Ext_append: "46 \<notin> set r \<Longrightarrow> 47 \<notin> set r \<Longrightarrow> path_Ext (b @ 46 # r) = 46 # r"
proof -
  assume "46 \<notin> set r" "47 \<notin> set r"
  then have "takeWhile (\<lambda>c. c \<noteq> 47 \<and> c \<noteq> 46) (rev r @ 46 # rev b) = rev r"
    by (subst takeWhile_append2) auto
  then show ?thesis by (simp add: path_Ext_def Let_def nth_append)
qed

lemma trim_right_append: "set ext \<subseteq> set cs \<Longrightarrow> trim_right (b @ ext) cs = trim_right b cs"
  by (induction ext rule: rev_induct) (simp_all flip: append_assoc)

lemma decompress_name_ext:
  assumes "COMPRESSED t" "base @ Fmt2Ext t \<noteq> std_name"
  shows "decompress_name t (base @ Fmt2Ext t) [] = Inr (trim_right base (Fmt2Ext t), True)"
proof -
  obtain r where r: "Fmt2Ext t = 46 # r" "46 \<notin> set r" "47 \<notin> set r"
    using Fmt2Ext_dot [OF assms(1)] by blast
  have "path_Ext (base @ Fmt2Ext t) = Fmt2Ext t" unfolding r(1) by (rule path_Ext_append [OF r(2,3)])
  moreover have "trim_right (base @ Fmt2Ext t) (Fmt2Ext t) = trim_right base (Fmt2Ext t)"
    by (rule trim_right_append) simp
  moreover have "Fmt2Ext t \<noteq> []" by (simp add: r(1))
  ultimately show ?thesis using assms(2) by (simp add: decompress_name_def)
qed

lemma trim_right_same_iff: "trim_right s cs = s \<longleftrightarrow> s = [] \<or> last s \<notin> set cs"
proof (cases s rule: rev_cases)
  case (snoc t x)
  have "length (trim_right t cs) \<le> length t" by (simp add: trim_right_def length_dropWhile_le [of _ "rev t", simplified])
  then have "x \<in> set cs \<Longrightarrow> trim_right (t @ [x]) cs \<noteq> t @ [x]" by auto
  with trim_right_id [of s cs] show ?thesis by (auto simp: snoc)
qed (simp add: trim_right_def)

lemma trim_right_prefix: "has_prefix s (trim_right s cs)"
  unfolding has_prefix_iff trim_right_def
  by (metis rev_append rev_rev_ident takeWhile_dropWhile_id)

text \<open>
  C40. The output name that \<open>Decompress\<close> derives from \<open>base.ext\<close>: a prefix of \<open>base\<close>, which is
  \<open>base\<close> itself exactly when \<open>base\<close> does not end with a byte of the extension. (The code
  trims a set of bytes, so that \<open>log.gz\<close> becomes \<open>lo\<close>.)
\<close>

theorem decompress_name_base:
  assumes "COMPRESSED t" "base \<noteq> []"
  shows "\<exists>name. decompress_name t (base @ Fmt2Ext t) [] = Inr (name, True) \<and> has_prefix base name
    \<and> (name = base \<longleftrightarrow> last base \<notin> set (Fmt2Ext t))"
proof -
  obtain r where "Fmt2Ext t = 46 # r" using Fmt2Ext_dot [OF assms(1)] by blast
  then have "base @ Fmt2Ext t \<noteq> std_name"
    using assms(2) by (auto simp: std_name_def str_def dest: arg_cong [of _ _ length])
  from decompress_name_ext [OF assms(1) this] show ?thesis
    using trim_right_prefix trim_right_same_iff [of base "Fmt2Ext t"] assms(2) by auto
qed

theorem decompress_name_base_witness:
  "decompress_name GZIP (str ''log.gz'') [] = Inr (str ''lo'', True) \<and> has_prefix (str ''log'') (str ''lo'')"
proof -
  have "COMPRESSED GZIP" "str ''log'' \<noteq> []" by code_simp+
  moreover have "str ''log'' @ Fmt2Ext GZIP = str ''log.gz''"
    "decompress_name GZIP (str ''log.gz'') [] = Inr (str ''lo'', True)"
    by code_simp+
  ultimately show ?thesis using decompress_name_base [of GZIP "str ''log''"] by auto
qed

section \<open>Compressing and decompressing a file\<close>

lemma hd_chunks: "0 < n \<Longrightarrow> xs \<noteq> [] \<Longrightarrow> \<exists>cs. chunks n xs = take n xs # cs"
  by (subst chunks.simps) simp

text \<open>The zeroed buffer after the first read of a file.\<close>

definition head_buf :: "bytes \<Rightarrow> bytes" where
  "head_buf s = take 4096 s @ replicate (4096 - length (take 4096 s)) 0"

text \<open>
  A file compressed without an output name and decompressed again without one is restored.
\<close>

lemma Compress_Decompress:
  assumes "NewEncoder t = Inr (LibEncoder l)" "COMPRESSED t"
    and "infile \<noteq> []" "infile \<noteq> std_name" "last infile \<notin> set (Fmt2Ext t)"
    and "Files w infile = Some content" "CanCreate w infile" "CanCreate w (infile @ Fmt2Ext t)"
    and "lib_enc cs l (chunks 4096 content @ [[]]) = Some (packed, True)" "packed \<noteq> []"
    and "CheckFmt (head_buf packed) [] = Inr t" "lib_dec cs l packed = Some (content, True)"
    and "Compress cs w (Fmt2Name t) infile [] = (w1, r1)"
    and "Decompress cs w1 (infile @ Fmt2Ext t) [] = (w2, r2)"
  shows "r1 = Inr () \<and> r2 = Inr () \<and> Files w1 infile = None \<and> Files w2 infile = Some content
    \<and> Files w2 (infile @ Fmt2Ext t) = None
    \<and> (\<forall>f. f \<notin> {infile, infile @ Fmt2Ext t} \<longrightarrow> Files w2 f = Files w f)"
proof -
  obtain r where ext: "Fmt2Ext t = 46 # r" using Fmt2Ext_dot [OF assms(2)] by blast
  let ?z = "infile @ Fmt2Ext t"
  have z: "?z \<noteq> std_name" "?z \<noteq> infile"
    using assms(3) by (auto simp: std_name_def str_def ext dest: arg_cong [of _ _ length])
  have t: "Name2Fmt (Fmt2Name t) = t" "t \<noteq> UNKNOWN"
    using assms(2) by (auto simp: COMPRESSED_set compress_formats_def Name2Fmt_Fmt2Name)
  have dec: "NewDecoder t = Some l" using assms(1) by (cases t) simp_all
  let ?w1 = "w\<lparr>Files := ((Files w)(?z \<mapsto> packed))(infile := None)\<rparr>"
  have "Compress cs w (Fmt2Name t) infile [] = (?w1, Inr ())"
    using z assms(1,4,6,8,9) t by (simp add: Compress_def compress_out_def os_Create_def run_encoder_def
        os_Remove_def)
  then have w1: "w1 = ?w1" "r1 = Inr ()" using assms(13) by simp_all
  have name: "decompress_name t ?z [] = Inr (infile, True)"
    using decompress_name_ext [OF assms(2) z(1)] trim_right_id [of infile "Fmt2Ext t"] assms(5) by simp
  obtain tl where "chunks 4096 packed = take 4096 packed # tl"
    using hd_chunks [of 4096 packed] assms(10) by auto
  then have first: "first_read ?w1 ?z = Inr (take 4096 packed)"
    using z by (simp add: first_read_def)
  have "Decompress cs ?w1 ?z [] = (os_Remove ?z (put_out (ToFile infile) content
      (?w1\<lparr>Files := (Files ?w1)(infile \<mapsto> [])\<rparr>)), Inr ())"
    unfolding Decompress_def first sum.case assms(11) [unfolded head_buf_def]
    using z assms(2,4,7,12) name dec
    by (simp add: os_Create_def run_decoder_def decoder_input_def)
  then have "w2 = os_Remove ?z (put_out (ToFile infile) content (w1\<lparr>Files := (Files w1)(infile \<mapsto> [])\<rparr>))"
    "r2 = Inr ()" using assms(14) w1 by simp_all
  with w1 z show ?thesis by (simp add: os_Remove_def)
qed

lemma head_buf_store_xz: "CheckFmt (head_buf (XZ_MAGIC @ str ''abc'')) [] = Inr XZ"
proof -
  define rest :: bytes where "rest = replicate 4088 0"
  have "head_buf (XZ_MAGIC @ str ''abc'') = XZ_MAGIC @ str ''abc'' @ rest"
    by (simp add: head_buf_def rest_def XZ_MAGIC_def str_def)
  moreover have "length rest = 4088" by (simp add: rest_def)
  ultimately show ?thesis
    by (simp add: CheckFmt_def checked_match_eq magic_defs str_def cong: if_cong)
qed

definition one_file :: io where
  "one_file = \<lparr>Files = [str ''boot.img'' \<mapsto> str ''abc''], CanCreate = \<lambda>_. True, Stdin = [], StdinSeeks = False, Stdout = []\<rparr>"

text \<open>
  Decompressing a file whose name has no extension, without an output name, creates the
  output over the input before the decoder reads it: the old content is lost, and the file
  holds what the decoder makes of an empty input.
\<close>

theorem Decompress_no_extension:
  assumes "infile \<noteq> std_name" "path_Ext infile = []" "Files w infile = Some content" "content \<noteq> []"
    and "CanCreate w infile" "CheckFmt (head_buf content) [] = Inr t" "COMPRESSED t"
  shows "Files (fst (Decompress cs w infile [])) infile = Some (fst (run_decoder cs t []))"
proof -
  obtain tl where "chunks 4096 content = take 4096 content # tl"
    using hd_chunks [of 4096 content] assms(4) by auto
  then have first: "first_read w infile = Inr (take 4096 content)"
    using assms(1,3) by (simp add: first_read_def)
  show ?thesis
    unfolding Decompress_def first sum.case assms(6) [unfolded head_buf_def]
    using assms(1,2,5,7)
    by (simp add: decompress_name_def os_Create_def decoder_input_def split: prod.splits sum.splits)
qed

definition packed_file :: io where
  "packed_file = one_file\<lparr>Files := [str ''ramdisk'' \<mapsto> XZ_MAGIC @ str ''abc'']\<rparr>"

theorem Decompress_no_extension_witness:
  "Files packed_file (str ''ramdisk'') = Some (XZ_MAGIC @ str ''abc'')
   \<and> Files (fst (Decompress store_codecs packed_file (str ''ramdisk'') [])) (str ''ramdisk'') = Some []"
proof -
  have e: "str ''ramdisk'' \<noteq> std_name" "path_Ext (str ''ramdisk'') = []"
    "Files packed_file (str ''ramdisk'') = Some (XZ_MAGIC @ str ''abc'')"
    "XZ_MAGIC @ str ''abc'' \<noteq> []"
    "COMPRESSED XZ" "fst (run_decoder store_codecs XZ []) = []"
    by code_simp+
  have "CanCreate packed_file (str ''ramdisk'')" by (simp add: packed_file_def one_file_def)
  from Decompress_no_extension [OF e(1-4) this head_buf_store_xz e(5), of store_codecs] e(3,6) show ?thesis by simp
qed

end
