(* ===== verification/Cpio_Backup.thy ===== *)
theory Cpio_Backup
  imports Cpio_Store Fstab_Patch Compress_Tool "HOL-Library.AList"
begin

text \<open>
  The compound operations of \<open>cpio.go\<close>: \<open>Compress\<close> and \<open>Decompress\<close> of an entry, \<open>Patch\<close>,
  \<open>Restore\<close>, \<open>Backup\<close> and \<open>LoadFromFile\<close>. A Go map that is built up is an association list
  with distinct keys. Entries are structures, so a change to a copy that is not stored back
  is lost; the definitions keep the copies apart as the code does.
\<close>

section \<open>Compressed entries\<close>

definition Compress_entry :: "codecs \<Rightarrow> CpioEntry \<Rightarrow> CpioEntry \<times> bool" where
  "Compress_entry cs e =
     (if Mode e AND S_IFMT \<noteq> S_IFREG then (e, False)
      else case Xz cs (Data e) of
        None \<Rightarrow> (e, False)
      | Some d \<Rightarrow> (e\<lparr>Data := d\<rparr>, True))"

text \<open>\<open>spare\<close> is what lies between the length and the capacity of a slice with these bytes.\<close>

definition Decompress_entry :: "codecs \<Rightarrow> (bytes \<Rightarrow> bytes) \<Rightarrow> CpioEntry \<Rightarrow> (CpioEntry \<times> bool) go" where
  "Decompress_entry cs spare e =
     (if Mode e AND S_IFMT \<noteq> S_IFREG then Inr (e, False)
      else go_bind (Unxz cs (Data e) (spare (Data e))) (\<lambda>r.
        case r of
          None \<Rightarrow> Inr (e, False)
        | Some d \<Rightarrow> Inr (e\<lparr>Data := d\<rparr>, True)))"

section \<open>Patch\<close>

text \<open>
  The loop ranges over the key slice as it is at the start, but \<open>Rm\<close> moves keys within the
  same array: \<open>arr\<close> is that array, the keys followed by the cells that are left over.
\<close>

definition verity_key :: bytes where
  "verity_key = str ''verity_key''"

definition is_fstab :: "bool \<Rightarrow> bool \<Rightarrow> bytes \<Rightarrow> CpioEntry \<Rightarrow> bool" where
  "is_fstab keep_verity keep_force_encrypt name entry \<longleftrightarrow>
     (\<not> keep_verity \<or> \<not> keep_force_encrypt) \<and> Mode entry AND S_IFMT = S_IFREG
     \<and> \<not> has_prefix name (str ''.backup'') \<and> \<not> has_prefix name (str ''twrp'')
     \<and> \<not> has_prefix name (str ''recovery'') \<and> has_prefix name (str ''fstab'')"

definition rm_in_place :: "bytes \<Rightarrow> Cpio \<Rightarrow> bytes list \<Rightarrow> Cpio \<times> bytes list" where
  "rm_in_place name c arr =
     (let c' = Rm (\<lambda>_. []) name False c in
      (c', if length (Keys c') < length (Keys c)
           then Keys c' @ [last (Keys c)] @ drop (length (Keys c)) arr
           else arr))"

definition patch_step :: "bool \<Rightarrow> bool \<Rightarrow> bytes \<Rightarrow> Cpio \<times> bytes list \<Rightarrow> (Cpio \<times> bytes list) \<times> unit go" where
  "patch_step keep_verity keep_force_encrypt name s =
     (case s of (c, arr) \<Rightarrow>
        let entry = entry_at c name;
            fstab = is_fstab keep_verity keep_force_encrypt name entry;
            r1 = (if \<not> keep_verity \<and> fstab then
                    go_bind (PatchVerity (Data entry)) (\<lambda>d. Inr (entry\<lparr>Data := d\<rparr>))
                  else Inr entry);
            s1 = (if \<not> keep_verity \<and> \<not> fstab \<and> name = verity_key then rm_in_place name c arr else (c, arr))
        in case r1 of
             Inl e \<Rightarrow> (s1, Inl e)
           | Inr entry1 \<Rightarrow>
               if \<not> keep_force_encrypt \<and> fstab then
                 (case PatchEncryption (Data entry1) of
                    Inl e \<Rightarrow> (s1, Inl e)
                  | Inr d \<Rightarrow> (s1, Inr ()))
               else (s1, Inr ()))"

fun patch_loop :: "bool \<Rightarrow> bool \<Rightarrow> nat list \<Rightarrow> Cpio \<times> bytes list \<Rightarrow> (Cpio \<times> bytes list) \<times> unit go" where
  "patch_loop keep_verity keep_force_encrypt [] s = (s, Inr ())"
| "patch_loop keep_verity keep_force_encrypt (i # is) s =
     (case patch_step keep_verity keep_force_encrypt (snd s ! i) s of
        (s', Inl e) \<Rightarrow> (s', Inl e)
      | (s', Inr _) \<Rightarrow> patch_loop keep_verity keep_force_encrypt is s')"

definition Patch :: "bool \<Rightarrow> bool \<Rightarrow> Cpio \<Rightarrow> Cpio \<times> unit go" where
  "Patch keep_verity keep_force_encrypt c =
     (case patch_loop keep_verity keep_force_encrypt [0..<length (Keys c)] (c, Keys c) of
        (s, r) \<Rightarrow> (fst s, r))"

section \<open>Restore\<close>

definition backup_dir :: bytes where
  "backup_dir = str ''.backup''"

definition backup_prefix :: bytes where
  "backup_prefix = str ''.backup/''"

definition rmlist_name :: bytes where
  "rmlist_name = str ''.backup/.rmlist''"

text \<open>
  The new name and the entry to restore: a name in \<open>.xz\<close> is tried to decompress, and loses the
  extension only when that succeeds.
\<close>

definition restored ::
  "codecs \<Rightarrow> (bytes \<Rightarrow> bytes) \<Rightarrow> bytes \<Rightarrow> CpioEntry \<Rightarrow> (bytes \<times> CpioEntry) go" where
  "restored cs spare name entry =
     go_bind (if has_suffix name (str ''.xz'') then Decompress_entry cs spare entry
              else Inr (entry, False)) (\<lambda>(entry, ok).
       go_bind (if ok then go_slice name 8 (length name - 3) else go_slice name 8 (length name)) (\<lambda>new_name.
         Inr (new_name, entry)))"

text \<open>One key of the first loop: it fills the backups and the removal list.\<close>

definition restore_step ::
  "codecs \<Rightarrow> (bytes \<Rightarrow> bytes) \<Rightarrow> Cpio \<Rightarrow> bytes \<Rightarrow> (bytes \<times> CpioEntry) list \<times> bytes
     \<Rightarrow> ((bytes \<times> CpioEntry) list \<times> bytes) go" where
  "restore_step cs spare c name acc =
     (case acc of (backups, rm_list) \<Rightarrow>
        let entry = entry_at c name in
        if has_prefix name backup_prefix then
          if name = rmlist_name then Inr (backups, rm_list @ Data entry)
          else if name \<noteq> str ''.backup/.magisk'' then
            go_bind (restored cs spare name entry) (\<lambda>(new_name, entry).
              Inr (AList.update new_name entry backups, rm_list))
          else Inr acc
        else Inr acc)"

fun restore_scan ::
  "codecs \<Rightarrow> (bytes \<Rightarrow> bytes) \<Rightarrow> Cpio \<Rightarrow> bytes list \<Rightarrow> (bytes \<times> CpioEntry) list \<times> bytes
     \<Rightarrow> ((bytes \<times> CpioEntry) list \<times> bytes) go" where
  "restore_scan cs spare c [] acc = Inr acc"
| "restore_scan cs spare c (name # names) acc =
     go_bind (restore_step cs spare c name acc) (\<lambda>acc'. restore_scan cs spare c names acc')"

text \<open>The entries of a built map are stored and their keys appended and sorted in.\<close>

definition store_all :: "(bytes \<times> CpioEntry) list \<Rightarrow> Cpio \<Rightarrow> Cpio" where
  "store_all backups c =
     c\<lparr>Entries := Entries c ++ map_of backups, Keys := sort (Keys c @ map fst backups)\<rparr>"

definition Rm_flat :: "bytes \<Rightarrow> Cpio \<Rightarrow> Cpio" where
  "Rm_flat path c = Rm (\<lambda>_. []) path False c"

definition Restore :: "codecs \<Rightarrow> (bytes \<Rightarrow> bytes) \<Rightarrow> Cpio \<Rightarrow> Cpio \<times> unit go" where
  "Restore cs spare c =
     (case restore_scan cs spare c (Keys c) ([], []) of
        Inl e \<Rightarrow> (c, Inl e)
      | Inr (backups, rm_list) \<Rightarrow>
          let c1 = Rm_flat backup_dir c in
          if rm_list = [] \<and> backups = [] then (c1\<lparr>Entries := Map.empty\<rparr>, Inr ())
          else
            let c2 = fold Rm_flat (filter (\<lambda>rm. rm \<noteq> []) (split_on 0 rm_list)) c1
            in (store_all backups c2, Inr ()))"

section \<open>Loading a file\<close>

text \<open>
  \<open>files\<close> gives the mapped content of a file that can be opened and mapped. The result of
  the parser is dropped, unless it is a panic.
\<close>

definition drop_error :: "unit go \<Rightarrow> unit go" where
  "drop_error r = (case r of Inl (Err _) \<Rightarrow> Inr () | _ \<Rightarrow> r)"

definition LoadFromFile :: "(bytes \<Rightarrow> bytes option) \<Rightarrow> bytes \<Rightarrow> Cpio \<Rightarrow> Cpio \<times> unit go" where
  "LoadFromFile files path c =
     (case files path of
        None \<Rightarrow> (c, Inl (Err OsError))
      | Some m \<Rightarrow> (case LoadFromData c m of (c', r) \<Rightarrow> (c', drop_error r)))"

section \<open>Backup\<close>

text \<open>The walk over both sorted key lists: what to back up and what to record as new.\<close>

fun backup_walk ::
  "(bytes \<Rightarrow> CpioEntry) \<Rightarrow> (bytes \<Rightarrow> CpioEntry) \<Rightarrow> bytes list \<Rightarrow> bytes list \<Rightarrow> bytes list \<times> bytes list" where
  "backup_walk lhs rhs [] rs = ([], rs)"
| "backup_walk lhs rhs (l # ls) [] = (l # ls, [])"
| "backup_walk lhs rhs (l # ls) (r # rs) =
     (if l < r then (case backup_walk lhs rhs ls (r # rs) of (b, n) \<Rightarrow> (l # b, n))
      else if l = r then
        (case backup_walk lhs rhs ls rs of
           (b, n) \<Rightarrow> (if Data (rhs r) \<noteq> Data (lhs l) then l # b else b, n))
      else (case backup_walk lhs rhs (l # ls) rs of (b, n) \<Rightarrow> (b, r # n)))"

definition backup_entry :: "codecs \<Rightarrow> bool \<Rightarrow> CpioEntry \<Rightarrow> CpioEntry" where
  "backup_entry cs skip_compress e = (if skip_compress then e else fst (Compress_entry cs e))"

definition backup_dir_entry :: CpioEntry where
  "backup_dir_entry = zero_entry\<lparr>Mode := S_IFDIR\<rparr>"

text \<open>
  \<open>unmap_nil\<close> is how \<open>Unmap\<close> of a nil map ends: \<open>Close\<close> is called on an archive whose file
  was not mapped.
\<close>

definition Backup ::
  "codecs \<Rightarrow> (Cpio \<Rightarrow> bytes list) \<Rightarrow> (bytes \<Rightarrow> bytes option) \<Rightarrow> unit go \<Rightarrow> bytes \<Rightarrow> bool \<Rightarrow> Cpio
     \<Rightarrow> Cpio \<times> unit go" where
  "Backup cs rng files unmap_nil origin skip_compress c =
     (case LoadFromFile files origin NewCpio of (o0, r) \<Rightarrow>
        (case (if r = Inl (Err OsError) then unmap_nil else r) of
           Inl e \<Rightarrow> (c, Inl e)
         | Inr _ \<Rightarrow>
             let o1 = Rm rng backup_dir True o0;
                 c1 = Rm rng backup_dir True c;
                 (backed, recorded) = backup_walk (entry_at o1) (entry_at c1) (Keys o1) (Keys c1);
                 backups0 = [(backup_dir, backup_dir_entry)];
                 backups1 = fold (\<lambda>name m. AList.update name (backup_entry cs skip_compress (entry_at o1 name)) m)
                   backed backups0;
                 rm_list = concat (map (\<lambda>name. name @ [0]) recorded);
                 backups2 = (if rm_list \<noteq> [] then AList.update rmlist_name
                   (zero_entry\<lparr>Mode := S_IFREG, Data := rm_list\<rparr>) backups1 else backups1)
             in (store_all backups2 c1, Inr ())))"

section \<open>What Patch does\<close>

lemma norm_verity_key: "norm_path verity_key = verity_key"
  by code_simp

lemma Rm_flat_eq: "Rm rng path False c =
    (if norm_path path \<in> dom (Entries c) then removeEntry (norm_path path) c else c)"
  by (simp add: Rm_def Let_def)

lemma patch_step_fst:
  "fst (patch_step kv kf name (c, arr)) =
     (if \<not> kv \<and> name = verity_key then rm_in_place name c arr else (c, arr))"
proof -
  have "\<not> is_fstab kv kf verity_key e" for e
    by (simp add: is_fstab_def verity_key_def str_def)
  then show ?thesis
    by (auto simp: patch_step_def Let_def split: sum.splits if_splits)
qed

text \<open>The states the loop can be in: nothing removed yet, or the key removed.\<close>

definition patch_inv :: "bool \<Rightarrow> Cpio \<Rightarrow> Cpio \<times> bytes list \<Rightarrow> bool" where
  "patch_inv kv c0 s \<longleftrightarrow> s = (c0, Keys c0)
     \<or> (\<not> kv \<and> verity_key \<in> dom (Entries c0) \<and> fst s = removeEntry verity_key c0)"

lemma patch_step_inv: "patch_inv kv c0 s \<Longrightarrow> patch_inv kv c0 (fst (patch_step kv kf name s))"
proof (cases "\<not> kv \<and> name = verity_key")
  case True
  assume inv: "patch_inv kv c0 s"
  obtain c arr where s: "s = (c, arr)" by (cases s)
  have "fst (rm_in_place verity_key c arr) = Rm (\<lambda>_. []) verity_key False c"
    by (simp add: rm_in_place_def Let_def)
  moreover have "verity_key \<notin> dom (Entries c) \<Longrightarrow> rm_in_place verity_key c arr = (c, arr)"
    by (simp add: rm_in_place_def Let_def Rm_flat_eq norm_verity_key)
  moreover have "verity_key \<notin> dom (Entries (removeEntry verity_key c0))"
    by (simp add: removeEntry_def)
  ultimately show ?thesis
    using inv True by (auto simp: patch_inv_def s patch_step_fst Rm_flat_eq norm_verity_key)
next
  case False
  assume "patch_inv kv c0 s"
  with False show ?thesis by (cases s) (auto simp: patch_step_fst)
qed

lemma patch_loop_inv: "patch_inv kv c0 s \<Longrightarrow> patch_inv kv c0 (fst (patch_loop kv kf is s))"
proof (induction "is" arbitrary: s)
  case (Cons i "is")
  obtain s' r where p: "patch_step kv kf (snd s ! i) s = (s', r)" by fastforce
  have "patch_inv kv c0 s'" using patch_step_inv [OF Cons.prems, of kf "snd s ! i"] p by simp
  with Cons.IH p show ?case by (cases r) simp_all
qed simp

lemma removeEntry_neq: "k \<in> dom (Entries c) \<Longrightarrow> c \<noteq> removeEntry k c"
proof
  assume "k \<in> dom (Entries c)" "c = removeEntry k c"
  then have "Entries c k = Entries (removeEntry k c) k" by simp
  with \<open>k \<in> dom (Entries c)\<close> show False by (auto simp: removeEntry_def)
qed

lemma patch_loop_removes:
  assumes "\<not> kv" "verity_key \<in> dom (Entries c0)"
  shows "patch_inv kv c0 s \<Longrightarrow> snd (patch_loop kv kf is s) = Inr () \<Longrightarrow>
    (fst s = removeEntry verity_key c0 \<or> (\<exists>i \<in> set is. Keys c0 ! i = verity_key)) \<Longrightarrow>
    fst (fst (patch_loop kv kf is s)) = removeEntry verity_key c0"
proof (induction "is" arbitrary: s)
  case (Cons i "is")
  obtain s' r where p: "patch_step kv kf (snd s ! i) s = (s', r)" by fastforce
  with Cons.prems(2) have r: "r = Inr ()" by (cases r) simp_all
  have inv': "patch_inv kv c0 s'" using patch_step_inv [OF Cons.prems(1), of kf "snd s ! i"] p by simp
  have "fst s' = removeEntry verity_key c0 \<or> (\<exists>i \<in> set is. Keys c0 ! i = verity_key)"
  proof (cases "s = (c0, Keys c0)")
    case True
    show ?thesis
    proof (cases "Keys c0 ! i = verity_key")
      case here: True
      have "fst s' = removeEntry verity_key c0"
        using assms p True here patch_step_fst [of kv kf verity_key c0 "Keys c0"]
        by (simp add: rm_in_place_def Let_def Rm_flat_eq norm_verity_key)
      then show ?thesis ..
    next
      case False
      have "fst s \<noteq> removeEntry verity_key c0" using True removeEntry_neq [OF assms(2)] by simp
      with Cons.prems(3) False show ?thesis by auto
    qed
  next
    case False
    with Cons.prems(1) have "fst s = removeEntry verity_key c0" by (simp add: patch_inv_def)
    moreover have "fst s' = fst s"
    proof -
      obtain c arr where s: "s = (c, arr)" by (cases s)
      have "verity_key \<notin> dom (Entries c)" using calculation by (simp add: s removeEntry_def)
      with p patch_step_fst [of kv kf "snd s ! i" c arr] show ?thesis
        by (auto simp: s rm_in_place_def Let_def Rm_flat_eq norm_verity_key split: if_splits)
    qed
    ultimately show ?thesis by simp
  qed
  with Cons.IH [OF inv'] Cons.prems(2) p r show ?case by simp
qed auto

lemma Patch_cases: "fst (Patch kv kf c) \<in> {c, removeEntry verity_key c}"
proof -
  have "patch_inv kv c (fst (patch_loop kv kf [0..<length (Keys c)] (c, Keys c)))"
    by (rule patch_loop_inv) (simp add: patch_inv_def)
  then show ?thesis by (auto simp: Patch_def patch_inv_def split: prod.splits)
qed

text \<open>
  C18. The only effect of \<open>Patch\<close> on an archive is that \<open>verity_key\<close> may go, and it goes when
  \<open>KEEPVERITY\<close> is off and the loop ends. The content of every other entry is as before: the
  fstab files are patched in copies of the entries that are not stored back.
\<close>

theorem Patch_effect:
  "fst (Patch kv kf c) \<in> {c, removeEntry verity_key c}
   \<and> (\<forall>k. k \<noteq> verity_key \<longrightarrow> Entries (fst (Patch kv kf c)) k = Entries c k)
   \<and> (covered c \<and> snd (Patch kv kf c) = Inr () \<longrightarrow>
       fst (Patch kv kf c) = (if \<not> kv \<and> verity_key \<in> dom (Entries c) then removeEntry verity_key c else c))"
proof -
  let ?l = "patch_loop kv kf [0..<length (Keys c)] (c, Keys c)"
  have P: "Patch kv kf c = (fst (fst ?l), snd ?l)" by (simp add: Patch_def split: prod.splits)
  have start: "patch_inv kv c (c, Keys c)" by (simp add: patch_inv_def)
  have inv: "patch_inv kv c (fst ?l)" by (rule patch_loop_inv [OF start])
  have two: "fst (Patch kv kf c) \<in> {c, removeEntry verity_key c}" by (rule Patch_cases)
  moreover have "\<forall>k. k \<noteq> verity_key \<longrightarrow> Entries (fst (Patch kv kf c)) k = Entries c k"
    using two by (auto simp: removeEntry_def)
  moreover have "fst (Patch kv kf c) = (if \<not> kv \<and> verity_key \<in> dom (Entries c) then removeEntry verity_key c else c)"
    if "covered c" "snd (Patch kv kf c) = Inr ()"
  proof (cases "\<not> kv \<and> verity_key \<in> dom (Entries c)")
    case True
    then have "verity_key \<in> set (Keys c)" using that(1) by (auto simp: covered_def)
    then have "\<exists>i \<in> set [0..<length (Keys c)]. Keys c ! i = verity_key" by (auto simp: in_set_conv_nth)
    with patch_loop_removes [OF _ _ start, of kf "[0..<length (Keys c)]"] True that(2) [unfolded P]
    show ?thesis unfolding P by simp
  next
    case False
    with inv show ?thesis by (auto simp: P patch_inv_def)
  qed
  ultimately show ?thesis by blast
qed

definition fstab_archive :: Cpio where
  "fstab_archive = addEntry verity_key (zero_entry\<lparr>Mode := S_IFREG\<rparr>)
     (addEntry (str ''fstab.qcom'') (zero_entry\<lparr>Mode := S_IFREG, Data := str ''a b c d wait,verify''\<rparr>) NewCpio)"

theorem Patch_effect_witness:
  "map (\<lambda>k. Data (entry_at (fst (Patch False False fstab_archive)) k)) (Keys (fst (Patch False False fstab_archive)))
     = [str ''a b c d wait,verify'']"
proof -
  have "covered fstab_archive"
    by (simp add: covered_def fstab_archive_def addEntry_def NewCpio_def)
  moreover have "snd (Patch False False fstab_archive) = Inr ()" "verity_key \<in> dom (Entries fstab_archive)"
    by code_simp+
  ultimately have "fst (Patch False False fstab_archive) = removeEntry verity_key fstab_archive"
    using Patch_effect [of False False fstab_archive] by simp
  moreover have "map (\<lambda>k. Data (entry_at (removeEntry verity_key fstab_archive) k))
      (Keys (removeEntry verity_key fstab_archive)) = [str ''a b c d wait,verify'']"
    by code_simp
  ultimately show ?thesis by simp
qed

section \<open>What Backup does\<close>

lemma backup_walk_sorted:
  "sorted_wrt (<) ls \<Longrightarrow> sorted_wrt (<) rs \<Longrightarrow>
   backup_walk lhs rhs ls rs =
     (filter (\<lambda>k. k \<in> set rs \<longrightarrow> Data (rhs k) \<noteq> Data (lhs k)) ls, filter (\<lambda>k. k \<notin> set ls) rs)"
proof (induction lhs rhs ls rs rule: backup_walk.induct)
  case (3 lhs rhs l ls r rs)
  have ls: "\<forall>k \<in> set ls. l < k" "sorted_wrt (<) ls" and rs: "\<forall>k \<in> set rs. r < k" "sorted_wrt (<) rs"
    using 3(4,5) by simp_all
  consider "l < r" | "l = r" | "r < l" by (rule linorder_cases)
  then show ?case
  proof cases
    case 1
    have "l \<notin> set (r # rs)" using 1 rs(1) by auto
    moreover have "filter (\<lambda>k. k \<notin> set (l # ls)) (r # rs) = filter (\<lambda>k. k \<notin> set ls) (r # rs)"
      using calculation by (intro filter_cong) auto
    ultimately show ?thesis using 3(1) [OF 1 ls(2) 3(5)] 1 by simp
  next
    case 2
    have n: "r \<notin> set rs" "r \<notin> set ls" using rs(1) ls(1) 2 by auto
    have "filter (\<lambda>k. k \<in> set (r # rs) \<longrightarrow> Data (rhs k) \<noteq> Data (lhs k)) ls
        = filter (\<lambda>k. k \<in> set rs \<longrightarrow> Data (rhs k) \<noteq> Data (lhs k)) ls"
      using n 2 by (intro filter_cong) auto
    moreover have "filter (\<lambda>k. k \<notin> set (l # ls)) rs = filter (\<lambda>k. k \<notin> set ls) rs"
      using n 2 by (intro filter_cong) auto
    ultimately show ?thesis using 3(2) [OF _ 2 ls(2) rs(2)] 2 by (simp del: filter.simps(1)) 
  next
    case 3
    have "r \<notin> set (l # ls)" using 3 ls(1) by auto
    moreover have "filter (\<lambda>k. k \<in> set (r # rs) \<longrightarrow> Data (rhs k) \<noteq> Data (lhs k)) (l # ls)
        = filter (\<lambda>k. k \<in> set rs \<longrightarrow> Data (rhs k) \<noteq> Data (lhs k)) (l # ls)"
      using calculation by (intro filter_cong) auto
    ultimately show ?thesis using "3.IH"(3) [OF _ _ "3.prems"(1) rs(2)] 3 by auto
  qed
qed auto

lemma map_of_fold_update:
  "map_of (fold (\<lambda>n m. AList.update n (f n) m) ns m0) = (\<lambda>k. if k \<in> set ns then Some (f k) else map_of m0 k)"
  by (induction ns arbitrary: m0) (auto simp: update_conv' fun_eq_iff)

lemma Entries_store_all: "Entries (store_all b c) = Entries c ++ map_of b"
  by (simp add: store_all_def)

text \<open>
  The walk over two strictly sorted key lists backs up the entries of the origin that are
  missing or have other data in the archive, and records the entries of the archive that
  are not in the origin.
\<close>

theorem backup_walk_spec:
  assumes "sorted_wrt (<) ls" "sorted_wrt (<) rs"
  shows "set (fst (backup_walk lhs rhs ls rs)) = {k \<in> set ls. k \<in> set rs \<longrightarrow> Data (rhs k) \<noteq> Data (lhs k)}
    \<and> set (snd (backup_walk lhs rhs ls rs)) = set rs - set ls
    \<and> sorted_wrt (<) (fst (backup_walk lhs rhs ls rs)) \<and> sorted_wrt (<) (snd (backup_walk lhs rhs ls rs))"
  unfolding backup_walk_sorted [OF assms] using assms by (auto intro: sorted_wrt_filter)

theorem backup_walk_spec_witness:
  "set (fst (backup_walk (\<lambda>_. zero_entry) (\<lambda>_. zero_entry) [str ''a'', str ''b''] [str ''b'', str ''c'']))
     = {str ''a''}"
proof -
  have "sorted_wrt (<) [str ''a'', str ''b'']" "sorted_wrt (<) [str ''b'', str ''c'']" by code_simp+
  moreover have "str ''a'' \<noteq> str ''b''" "str ''a'' \<noteq> str ''c''" by code_simp+
  ultimately show ?thesis
    using backup_walk_spec [of "[str ''a'', str ''b'']" "[str ''b'', str ''c'']" "\<lambda>_. zero_entry" "\<lambda>_. zero_entry"]
    by auto
qed

text \<open>
  What \<open>Backup\<close> stores, in one map: the recorded names, the backed-up entries, the directory.
\<close>

lemma Backup_closed:
  assumes "LoadFromFile files origin NewCpio = (o0, Inr ())"
    and "o1 = Rm rng backup_dir True o0" "c1 = Rm rng backup_dir True c"
    and "sorted_wrt (<) (Keys o1)" "sorted_wrt (<) (Keys c1)"
  obtains b where "Backup cs rng files unmap_nil origin skip c = (store_all b c1, Inr ())"
    and "distinct (map fst b)"
    and "map_of b = (let added = filter (\<lambda>k. k \<notin> set (Keys o1)) (Keys c1) in
      (\<lambda>k. if k = rmlist_name \<and> added \<noteq> [] then
            Some (zero_entry\<lparr>Mode := S_IFREG, Data := concat (map (\<lambda>name. name @ [0]) added)\<rparr>)
          else if k \<in> set (Keys o1) \<and> (k \<in> set (Keys c1) \<longrightarrow> Data (entry_at c1 k) \<noteq> Data (entry_at o1 k))
            then Some (backup_entry cs skip (entry_at o1 k))
          else if k = backup_dir then Some backup_dir_entry else None))"
proof -
  let ?bk = "filter (\<lambda>k. k \<in> set (Keys c1) \<longrightarrow> Data (entry_at c1 k) \<noteq> Data (entry_at o1 k)) (Keys o1)"
  let ?rec = "filter (\<lambda>k. k \<notin> set (Keys o1)) (Keys c1)"
  let ?m = "fold (\<lambda>name m. AList.update name (backup_entry cs skip (entry_at o1 name)) m) ?bk
    [(backup_dir, backup_dir_entry)]"
  let ?d = "concat (map (\<lambda>name. name @ [0]) ?rec)"
  let ?b = "if ?d \<noteq> [] then AList.update rmlist_name (zero_entry\<lparr>Mode := S_IFREG, Data := ?d\<rparr>) ?m else ?m"
  have w: "backup_walk (entry_at o1) (entry_at c1) (Keys o1) (Keys c1) = (?bk, ?rec)"
    by (rule backup_walk_sorted [OF assms(4,5)])
  have d: "concat (map (\<lambda>name. name @ [0 :: byte]) ns) = [] \<longleftrightarrow> ns = []" for ns
    by (cases ns) simp_all
  show thesis
  proof (rule that)
    show "Backup cs rng files unmap_nil origin skip c = (store_all ?b c1, Inr ())"
      unfolding Backup_def assms(1) prod.case assms(2,3) [symmetric]
      by (simp only: Let_def w assms(2,3) [symmetric] prod.case sum.case sum.distinct if_False simp_thms)
    have "distinct (map fst (fold (\<lambda>name m. AList.update name (f name) m) ns m))" if "distinct (map fst m)"
      for f :: "bytes \<Rightarrow> CpioEntry" and ns m
      using that by (induction ns arbitrary: m) (simp_all add: distinct_update)
    then show "distinct (map fst ?b)" by (simp add: distinct_update)
    show "map_of ?b = (let added = ?rec in
      (\<lambda>k. if k = rmlist_name \<and> added \<noteq> [] then
            Some (zero_entry\<lparr>Mode := S_IFREG, Data := concat (map (\<lambda>name. name @ [0]) added)\<rparr>)
          else if k \<in> set (Keys o1) \<and> (k \<in> set (Keys c1) \<longrightarrow> Data (entry_at c1 k) \<noteq> Data (entry_at o1 k))
            then Some (backup_entry cs skip (entry_at o1 k))
          else if k = backup_dir then Some backup_dir_entry else None))"
      unfolding Let_def d
      by (rule ext) (auto simp: update_conv' map_of_fold_update simp del: filter_empty_conv)
  qed
qed

text \<open>
  C19. Where a backup goes. When both key lists are strictly sorted after the old backup was
  removed, \<open>Backup\<close> binds the name of a removed or changed file itself, not a name below
  \<open>.backup/\<close>, to the (compressed) entry of the origin: the changed file in the archive is
  overwritten, and everything else but \<open>.backup\<close> and \<open>.backup/.rmlist\<close> keeps its entry.
\<close>

theorem Backup_effect:
  assumes "LoadFromFile files origin NewCpio = (o0, Inr ())"
    and "o1 = Rm rng backup_dir True o0" "c1 = Rm rng backup_dir True c"
    and "sorted_wrt (<) (Keys o1)" "sorted_wrt (<) (Keys c1)"
    and "k \<noteq> backup_dir" "k \<noteq> rmlist_name"
  shows "snd (Backup cs rng files unmap_nil origin skip c) = Inr ()
    \<and> Entries (fst (Backup cs rng files unmap_nil origin skip c)) k =
      (if k \<in> set (Keys o1) \<and> (k \<in> set (Keys c1) \<longrightarrow> Data (entry_at c1 k) \<noteq> Data (entry_at o1 k))
       then Some (backup_entry cs skip (entry_at o1 k)) else Entries c1 k)"
proof -
  obtain b where
    b: "Backup cs rng files unmap_nil origin skip c = (store_all b c1, Inr ())" and
    m: "map_of b k = (if k \<in> set (Keys o1) \<and> (k \<in> set (Keys c1) \<longrightarrow> Data (entry_at c1 k) \<noteq> Data (entry_at o1 k))
      then Some (backup_entry cs skip (entry_at o1 k)) else None)"
    by (rule Backup_closed [OF assms(1-5), of cs unmap_nil skip]) (simp add: assms(6,7) Let_def)
  show ?thesis
    unfolding b fst_conv snd_conv Entries_store_all map_add_def m by auto
qed

definition changed_origin :: Cpio where
  "changed_origin = addEntry (str ''init'') (zero_entry\<lparr>Mode := S_IFREG, Data := str ''old''\<rparr>) NewCpio"

definition changed_archive :: Cpio where
  "changed_archive = addEntry (str ''init'') (zero_entry\<lparr>Mode := S_IFREG, Data := str ''new''\<rparr>) NewCpio"

lemma load_changed_origin:
  "LoadFromFile (\<lambda>_. Some (dump_bytes changed_origin)) origin NewCpio = (changed_origin, Inr ())"
proof -
  have k: "Keys changed_origin = [str ''init'']"
    "Entries changed_origin = [str ''init'' \<mapsto> zero_entry\<lparr>Mode := S_IFREG, Data := str ''old''\<rparr>]"
    by (simp_all add: changed_origin_def addEntry_def NewCpio_def)
  have "LoadFromData NewCpio (dump_bytes changed_origin) =
      (\<lparr>Entries = (\<lambda>k. if k \<in> set (Keys changed_origin) then Some (entry_at changed_origin k) else None),
        Keys = Keys changed_origin\<rparr>, Inr ())"
    by (rule parse_dumped)
      (simp_all add: k entry_at_def plain_name_def entry_fits_def trailer_name_def str_def)
  moreover have "(\<lambda>x. if x \<in> set (Keys changed_origin) then Some (entry_at changed_origin x) else None) = Entries changed_origin"
    by (simp add: k entry_at_def fun_eq_iff)
  ultimately show ?thesis by (simp add: LoadFromFile_def drop_error_def)
qed

theorem Backup_effect_witness:
  "Entries (fst (Backup store_codecs key_order (\<lambda>_. Some (dump_bytes changed_origin)) (Inr ()) [] True changed_archive))
     (str ''init'') = Some (zero_entry\<lparr>Mode := S_IFREG, Data := str ''old''\<rparr>)"
proof -
  have n: "norm_path backup_dir = str ''.backup''" "str ''init'' \<noteq> str ''.backup''"
    "str ''init'' \<noteq> backup_dir" "str ''init'' \<noteq> rmlist_name" "\<not> has_prefix (str ''init'') (str ''.backup'' @ [slash])"
    by code_simp+
  have r: "Rm key_order backup_dir True changed_origin = changed_origin"
    "Rm key_order backup_dir True changed_archive = changed_archive"
    using n by (simp_all add: Rm_def Let_def changed_origin_def changed_archive_def addEntry_def NewCpio_def
        key_order_def)
  have k: "sorted_wrt (<) (Keys changed_origin)" "sorted_wrt (<) (Keys changed_archive)"
    "str ''init'' \<in> set (Keys changed_origin)"
    "Data (entry_at changed_archive (str ''init'')) \<noteq> Data (entry_at changed_origin (str ''init''))"
    "entry_at changed_origin (str ''init'') = zero_entry\<lparr>Mode := S_IFREG, Data := str ''old''\<rparr>"
    by (simp_all add: changed_origin_def changed_archive_def addEntry_def NewCpio_def entry_at_def str_def)
  show ?thesis
    using Backup_effect [OF load_changed_origin refl refl, of key_order changed_archive "str ''init''", unfolded r, OF k(1,2) n(3,4)] k
    by (simp add: backup_entry_def)
qed

end
