(* ===== verification/Cpio_Restore.thy ===== *)
theory Cpio_Restore
  imports Cpio_Backup
begin

text \<open>
  What \<open>Restore\<close> of \<open>cpio.go\<close> does to an archive, compressed backups included, and what a \<open>Backup\<close>
  followed by a \<open>Restore\<close> comes to; every compound operation keeps a key for each entry.
\<close>

section \<open>What Restore does\<close>

definition restorable :: "bytes \<Rightarrow> bool" where
  "restorable k \<longleftrightarrow> has_prefix k backup_prefix \<and> k \<noteq> rmlist_name \<and> k \<noteq> str ''.backup/.magisk''"

definition removal_data :: "Cpio \<Rightarrow> bytes" where
  "removal_data c = concat (map (\<lambda>k. if k = rmlist_name then Data (entry_at c k) else []) (Keys c))"

lemma rmlist_prefix: "has_prefix rmlist_name backup_prefix"
  by code_simp

lemma length_backup_prefix: "length backup_prefix = 8"
  by (simp add: backup_prefix_def)

lemma backup_prefix_drop: "has_prefix k backup_prefix \<Longrightarrow> k = backup_prefix @ drop 8 k \<and> 8 \<le> length k"
proof -
  assume "has_prefix k backup_prefix"
  moreover have "length backup_prefix = 8" by (simp add: backup_prefix_def)
  ultimately show ?thesis by (auto simp: has_prefix_iff)
qed

text \<open>Where a backup goes, when \<open>d\<close> says what decompression does to it.\<close>

definition backup_target :: "(bytes \<Rightarrow> CpioEntry \<times> bool) \<Rightarrow> Cpio \<Rightarrow> bytes \<Rightarrow> bytes \<times> CpioEntry" where
  "backup_target d c k =
     (if \<not> has_suffix k (str ''.xz'') then (drop 8 k, entry_at c k)
      else if snd (d k) then (take (length k - 11) (drop 8 k), fst (d k))
      else (drop 8 k, fst (d k)))"

definition unpacks :: "codecs \<Rightarrow> (bytes \<Rightarrow> bytes) \<Rightarrow> Cpio \<Rightarrow> (bytes \<Rightarrow> CpioEntry \<times> bool) \<Rightarrow> bool" where
  "unpacks cs spare c d \<longleftrightarrow>
     (\<forall>k \<in> set (Keys c). restorable k \<and> has_suffix k (str ''.xz'') \<longrightarrow>
        Decompress_entry cs spare (entry_at c k) = Inr (d k))"

lemma unpacks_plain:
  "\<forall>k \<in> set (Keys c). has_prefix k backup_prefix \<longrightarrow> \<not> has_suffix k (str ''.xz'') \<Longrightarrow> unpacks cs spare c d"
  by (auto simp: unpacks_def restorable_def)

text \<open>A name below \<open>.backup/\<close> that ends in \<open>.xz\<close> has at least 11 bytes: the two do not overlap.\<close>

lemma backup_xz_length:
  assumes "has_prefix k backup_prefix" "has_suffix k (str ''.xz'')"
  shows "11 \<le> length k"
proof (rule ccontr)
  assume "\<not> 11 \<le> length k"
  moreover obtain t where k: "k = backup_prefix @ t" using assms(1) by (auto simp: has_prefix_iff)
  have l: "8 \<le> length k" "k ! 7 = 47"
    by (simp_all add: k nth_append backup_prefix_def str_def)
  ultimately have "drop (length k - 3) k ! (7 - (length k - 3)) \<in> set (drop (length k - 3) k)"
    by (intro nth_mem) auto
  then have "47 \<in> set (drop (length k - 3) k)"
    using l \<open>\<not> 11 \<le> length k\<close> by (simp add: nth_drop)
  moreover have "drop (length k - 3) k = str ''.xz''"
    using assms(2) by (simp add: has_suffix_def numeral_3_eq_3)
  ultimately show False by (simp add: str_def)
qed

lemma restored_target:
  assumes "has_prefix k backup_prefix"
    and "has_suffix k (str ''.xz'') \<Longrightarrow> Decompress_entry cs spare (entry_at c k) = Inr (d k)"
  shows "restored cs spare k (entry_at c k) = Inr (backup_target d c k)"
  using assms has_prefix_length [OF assms(1)] backup_xz_length [OF assms(1)] length_backup_prefix
  by (cases "d k"; cases "has_suffix k (str ''.xz'')") (auto simp: restored_def backup_target_def go_slice_def)

definition target_map :: "(bytes \<Rightarrow> CpioEntry \<times> bool) \<Rightarrow> Cpio \<Rightarrow> bytes list \<Rightarrow> (bytes \<times> CpioEntry) list" where
  "target_map d c ks =
     fold (\<lambda>(n, e) b. AList.update n e b) (map (backup_target d c) (filter restorable ks)) []"

lemma restore_scan_targets:
  assumes "unpacks cs spare c d" "set ks \<subseteq> set (Keys c)"
  shows "restore_scan cs spare c ks (b, r) = Inr
     (fold (\<lambda>(n, e) b. AList.update n e b) (map (backup_target d c) (filter restorable ks)) b,
      r @ concat (map (\<lambda>k. if k = rmlist_name then Data (entry_at c k) else []) ks))"
  using assms(2)
proof (induction ks arbitrary: b r)
  case (Cons k ks)
  have "rmlist_name \<noteq> str ''.backup/.magisk''" by code_simp
  moreover have "restorable k \<Longrightarrow> restored cs spare k (entry_at c k) = Inr (backup_target d c k)"
    using assms(1) Cons.prems by (intro restored_target) (auto simp: restorable_def unpacks_def)
  ultimately have "restore_step cs spare c k (b, r) = Inr
      (if restorable k then AList.update (fst (backup_target d c k)) (snd (backup_target d c k)) b else b,
       if k = rmlist_name then r @ Data (entry_at c k) else r)"
    using rmlist_prefix
    by (cases "backup_target d c k") (auto simp: restore_step_def restorable_def Let_def)
  with Cons show ?case by (simp add: case_prod_beta)
qed simp

lemma map_of_targets:
  "map_of (fold (\<lambda>(n, e) b. AList.update n e b) ps b) n =
     (let es = filter (\<lambda>p. fst p = n) ps in if es = [] then map_of b n else Some (snd (last es)))"
proof (induction ps arbitrary: b)
  case (Cons p ps)
  then show ?case by (cases p) (auto simp: update_conv' Let_def)
qed simp

lemma fold_update_nonempty:
  "b \<noteq> [] \<Longrightarrow> fold (\<lambda>(n, e) b. AList.update n e b) ps b \<noteq> []"
  by (induction ps arbitrary: b) (simp_all add: case_prod_beta)

lemma target_map_Nil: "target_map d c ks = [] \<longleftrightarrow> filter restorable ks = []"
proof (cases "filter restorable ks")
  case (Cons k ks')
  have "AList.update (fst (backup_target d c k)) (snd (backup_target d c k)) [] \<noteq> []" by simp
  from fold_update_nonempty [OF this] Cons show ?thesis by (simp add: target_map_def case_prod_beta)
qed (simp add: target_map_def)

lemma Entries_fold_Rm_flat:
  "Entries (fold Rm_flat ps c) = (\<lambda>k. if k \<in> norm_path ` set ps then None else Entries c k)"
  by (induction ps arbitrary: c)
    (auto simp: Rm_flat_def Rm_flat_eq removeEntry_def fun_eq_iff domIff)

lemma Restore_closed:
  assumes "unpacks cs spare c d"
  shows "Restore cs spare c =
    (if removal_data c = [] \<and> (\<forall>k \<in> set (Keys c). \<not> restorable k)
     then ((Rm_flat backup_dir c)\<lparr>Entries := Map.empty\<rparr>, Inr ())
     else (store_all (target_map d c (Keys c))
       (fold Rm_flat (backup_dir # filter (\<lambda>rm. rm \<noteq> []) (split_on 0 (removal_data c))) c), Inr ()))"
proof -
  have "restore_scan cs spare c (Keys c) ([], []) = Inr (target_map d c (Keys c), removal_data c)"
    unfolding restore_scan_targets [OF assms subset_refl] by (simp add: removal_data_def target_map_def)
  moreover have "target_map d c (Keys c) = [] \<longleftrightarrow> (\<forall>k \<in> set (Keys c). \<not> restorable k)"
    by (simp add: target_map_Nil filter_empty_conv)
  ultimately show ?thesis by (auto simp: Restore_def Let_def)
qed

lemma Entries_Restore:
  assumes "unpacks cs spare c d"
  shows "Entries (fst (Restore cs spare c)) n =
    (let bs = filter (\<lambda>k. restorable k \<and> fst (backup_target d c k) = n) (Keys c) in
     if removal_data c = [] \<and> (\<forall>k \<in> set (Keys c). \<not> restorable k) then None
     else if bs \<noteq> [] then Some (snd (backup_target d c (last bs)))
     else if n \<in> norm_path ` insert backup_dir (set (split_on 0 (removal_data c)) - {[]}) then None
     else Entries c n)"
proof -
  let ?rms = "filter (\<lambda>rm. rm \<noteq> []) (split_on 0 (removal_data c))"
  have rms: "norm_path ` set (backup_dir # ?rms) = norm_path ` insert backup_dir (set (split_on 0 (removal_data c)) - {[]})"
    by (rule arg_cong [where f = "(`) norm_path"]) auto
  have bs: "filter (\<lambda>p. fst p = n) (map (backup_target d c) (filter restorable (Keys c)))
      = map (backup_target d c) (filter (\<lambda>k. restorable k \<and> fst (backup_target d c k) = n) (Keys c))"
    by (simp add: filter_map comp_def conj_commute)
  let ?bs = "filter (\<lambda>k. restorable k \<and> fst (backup_target d c k) = n) (Keys c)"
  have m: "map_of (target_map d c (Keys c)) n = (if ?bs = [] then None else Some (snd (backup_target d c (last ?bs))))"
    unfolding target_map_def map_of_targets bs by (simp add: Let_def last_map del: filter_empty_conv)
  show ?thesis
  proof (cases "removal_data c = [] \<and> (\<forall>k \<in> set (Keys c). \<not> restorable k)")
    case True
    then show ?thesis by (simp add: Restore_closed [OF assms])
  next
    case False
    then have "Restore cs spare c = (store_all (target_map d c (Keys c)) (fold Rm_flat (backup_dir # ?rms) c), Inr ())"
      unfolding Restore_closed [OF assms] by (simp only: if_False)
    with False show ?thesis
      by (simp only: fst_conv Entries_store_all Entries_fold_Rm_flat rms map_add_def m Let_def)
        (simp del: filter_empty_conv)
  qed
qed

text \<open>
  On an archive without anything below \<open>.backup/\<close>, \<open>Restore\<close> empties the entries but keeps
  the key list (without \<open>.backup\<close>): every remaining key then reads as an entry of zeros.
\<close>

theorem Restore_stock_wipes:
  assumes "\<forall>k \<in> set (Keys c). \<not> has_prefix k backup_prefix" "tidy c"
  shows "snd (Restore cs spare c) = Inr () \<and> Entries (fst (Restore cs spare c)) = Map.empty
    \<and> Keys (fst (Restore cs spare c)) = filter (\<lambda>k. k \<noteq> backup_dir) (Keys c)"
proof -
  have b: "norm_path backup_dir = backup_dir" by code_simp
  have none: "\<forall>k \<in> set (Keys c). \<not> restorable k" "\<forall>k \<in> set (Keys c). k \<noteq> rmlist_name"
    using assms(1) rmlist_prefix by (auto simp: restorable_def)
  then have "unpacks cs spare c (\<lambda>_. undefined)" "removal_data c = []"
    by (auto simp: unpacks_def removal_data_def)
  from Restore_closed [OF this(1)] this(2) none(1)
  have "Restore cs spare c = ((Rm_flat backup_dir c)\<lparr>Entries := Map.empty\<rparr>, Inr ())" by simp
  moreover have "Keys (Rm_flat backup_dir c) = filter (\<lambda>k. k \<noteq> backup_dir) (Keys c)"
    using assms(2) by (auto simp: Rm_flat_def Rm_flat_eq b removeEntry_def tidy_def distinct_remove1_removeAll
        removeAll_filter_not_eq eq_commute [of backup_dir] intro!: sym [OF filter_True])
  ultimately show ?thesis by simp
qed

theorem Restore_stock_wipes_witness:
  "Entries (fst (Restore store_codecs (\<lambda>_. []) small_archive)) = Map.empty"
proof -
  have "\<forall>k \<in> set (Keys small_archive). \<not> has_prefix k backup_prefix" by code_simp
  from Restore_stock_wipes [OF this small_archive_ok(1)] show ?thesis by blast
qed

text \<open>
  C20. What \<open>Restore\<close> does whenever no decompression panics. If nothing can be restored and
  the removal list is empty, every entry goes. Otherwise each name is bound to the last
  backup in key order that goes there (below \<open>.backup/\<close>, without that prefix, and without \<open>.xz\<close>
  exactly when the content could be decompressed), \<open>.backup\<close> and the names of the
  removal list are unbound, and the rest stays, the entries below \<open>.backup/\<close> included.
\<close>

theorem Restore_effect:
  assumes "\<forall>k \<in> set (Keys c). restorable k \<and> has_suffix k (str ''.xz'') \<longrightarrow>
      Decompress_entry cs spare (entry_at c k) = Inr (d k)"
  shows "snd (Restore cs spare c) = Inr ()
    \<and> Entries (fst (Restore cs spare c)) n =
      (let target = (\<lambda>k. if has_suffix k (str ''.xz'') \<and> snd (d k) then take (length k - 11) (drop 8 k) else drop 8 k);
           content = (\<lambda>k. if has_suffix k (str ''.xz'') then fst (d k) else entry_at c k);
           bs = filter (\<lambda>k. restorable k \<and> target k = n) (Keys c)
       in if removal_data c = [] \<and> (\<forall>k \<in> set (Keys c). \<not> restorable k) then None
          else if bs \<noteq> [] then Some (content (last bs))
          else if n \<in> norm_path ` insert backup_dir (set (split_on 0 (removal_data c)) - {[]}) then None
          else Entries c n)"
proof -
  have u: "unpacks cs spare c d" using assms by (simp add: unpacks_def)
  have t: "fst (backup_target d c k) = (if has_suffix k (str ''.xz'') \<and> snd (d k) then take (length k - 11) (drop 8 k) else drop 8 k)"
    "snd (backup_target d c k) = (if has_suffix k (str ''.xz'') then fst (d k) else entry_at c k)" for k
    by (auto simp: backup_target_def)
  have "snd (Restore cs spare c) = Inr ()" by (simp add: Restore_closed [OF u])
  then show ?thesis unfolding Entries_Restore [OF u, of n] t Let_def by simp
qed

definition backed_up :: Cpio where
  "backed_up = addEntry rmlist_name (zero_entry\<lparr>Mode := S_IFREG, Data := str ''sbin/su'' @ [0]\<rparr>)
     (addEntry (str ''.backup/init.xz'') (zero_entry\<lparr>Mode := S_IFREG, Data := XZ_MAGIC @ str ''old''\<rparr>)
       (addEntry (str ''init'') (zero_entry\<lparr>Mode := S_IFREG, Data := str ''new''\<rparr>) small_archive))"

lemma Decompress_backed_up:
  "Decompress_entry store_codecs (\<lambda>_. []) (zero_entry\<lparr>Mode := S_IFREG, Data := XZ_MAGIC @ str ''old''\<rparr>)
     = Inr (zero_entry\<lparr>Mode := S_IFREG, Data := str ''old''\<rparr>, True)"
proof -
  have "CheckFmt (XZ_MAGIC @ str ''old'') [] = Inr XZ"
    by (simp add: CheckFmt_def checked_match_eq magic_defs str_def cong: if_cong)
  moreover have "lib_dec store_codecs LibXz (XZ_MAGIC @ str ''old'') = Some (str ''old'', True)"
    by code_simp
  ultimately show ?thesis by (simp add: Decompress_entry_def Unxz_def mode_defs)
qed

theorem Restore_effect_witness:
  "Entries (fst (Restore store_codecs (\<lambda>_. []) backed_up)) (str ''init'')
     = Some (zero_entry\<lparr>Mode := S_IFREG, Data := str ''old''\<rparr>)"
proof -
  let ?d = "\<lambda>_. (zero_entry\<lparr>Mode := S_IFREG, Data := str ''old''\<rparr>, True)"
  let ?k = "str ''.backup/init.xz''"
  have K: "Keys backed_up = [rmlist_name, ?k, str ''init'', str ''init'', str ''sbin'', str ''sbin/su'']"
    by code_simp
  have e: "entry_at backed_up ?k = zero_entry\<lparr>Mode := S_IFREG, Data := XZ_MAGIC @ str ''old''\<rparr>"
    and x: "has_suffix ?k (str ''.xz'')" and t: "take (length ?k - 11) (drop 8 ?k) = str ''init''"
    by code_simp+
  have f: "filter restorable (Keys backed_up) = [?k]" and rm: "removal_data backed_up \<noteq> []"
    unfolding K removal_data_def
    by (simp_all add: restorable_def backup_prefix_def rmlist_name_def str_simps backed_up_def addEntry_def entry_at_def)
  have r: "restorable k \<Longrightarrow> k \<in> set (Keys backed_up) \<Longrightarrow> k = ?k" for k
  proof -
    assume "restorable k" "k \<in> set (Keys backed_up)"
    then have "k \<in> set (filter restorable (Keys backed_up))" by simp
    then show "k = ?k" unfolding f by simp
  qed
  have "\<forall>k \<in> set (Keys backed_up). restorable k \<and> has_suffix k (str ''.xz'') \<longrightarrow>
      Decompress_entry store_codecs (\<lambda>_. []) (entry_at backed_up k) = Inr (?d k)"
    using r e Decompress_backed_up by auto
  note spec = Restore_effect [OF this, of "str ''init''"]
  have "filter (\<lambda>k. restorable k \<and> (if has_suffix k (str ''.xz'') \<and> snd (?d k) then take (length k - 11) (drop 8 k)
      else drop 8 k) = str ''init'') (Keys backed_up) = filter restorable (Keys backed_up)"
  proof (rule filter_cong [OF refl])
    fix k assume "k \<in> set (Keys backed_up)"
    with r [of k] x t show "(restorable k \<and> (if has_suffix k (str ''.xz'') \<and> snd (?d k)
        then take (length k - 11) (drop 8 k) else drop 8 k) = str ''init'') = restorable k"
      by (cases "restorable k") simp_all
  qed
  with spec x rm f show ?thesis by (simp add: Let_def)
qed

section \<open>Every entry has a key\<close>

lemma covered_Patch: "covered c \<Longrightarrow> covered (fst (Patch kv kf c))"
  using Patch_cases [of kv kf c] covered_removeEntry by auto

lemma covered_store_all: "covered c \<Longrightarrow> covered (store_all b c)"
  unfolding covered_def store_all_def
  by (auto simp: dom_map_of_conv_image_fst)

lemma covered_Rm_flat: "covered c \<Longrightarrow> covered (Rm_flat path c)"
  by (simp add: Rm_flat_def covered_Rm)

lemma covered_fold_Rm_flat: "covered c \<Longrightarrow> covered (fold Rm_flat ps c)"
  by (induction ps arbitrary: c) (simp_all add: covered_Rm_flat)

lemma covered_Restore: "covered c \<Longrightarrow> covered (fst (Restore cs spare c))"
  by (auto simp: Restore_def Let_def covered_store_all covered_fold_Rm_flat covered_Rm_flat
      covered_def [of "Cpio.Entries_update _ _"] split: sum.splits prod.splits)

lemma covered_grows: "grows c c' \<Longrightarrow> covered c \<Longrightarrow> covered c'"
  unfolding grows_def covered_def by (elim exE conjE) auto

lemma covered_LoadFromFile: "covered c \<Longrightarrow> covered (fst (LoadFromFile files path c))"
proof -
  assume c: "covered c"
  show ?thesis
  proof (cases "files path")
    case None
    with c show ?thesis by (simp add: LoadFromFile_def)
  next
    case (Some m)
    obtain c' r where l: "load_loop m 0 c = (c', r)" by (cases "load_loop m 0 c")
    with load_loop_outcomes [OF l] c Some show ?thesis
      by (auto simp: LoadFromFile_def LoadFromData_def intro: covered_grows)
  qed
qed

lemma covered_Backup: "covered c \<Longrightarrow> covered (fst (Backup cs rng files nil origin skip c))"
  by (auto simp: Backup_def Let_def covered_store_all covered_Rm split: sum.splits prod.splits)

lemma covered_NewCpio: "covered NewCpio"
  by (simp add: covered_def NewCpio_def)

end
