(* ===== verification/Cpio_Cli.thy ===== *)
theory Cpio_Cli
  imports Cpio_Restore
begin

text \<open>
  The command interpreter of \<open>cpio.go\<close>: \<open>parseMode\<close> and \<open>CpioCommands\<close>. A command is a step
  of a state that holds the archive, the file system calls made by \<open>extract\<close> and the lines
  printed by \<open>ls\<close>; it goes on, ends the process, or panics. The archive is written back only
  when every command has gone on.
\<close>

section \<open>Environment and state\<close>

text \<open>
  What the commands take from outside: the codecs, the spare capacity of slices, the order of
  map iteration, the files that can be mapped, \<open>Unmap\<close> of a nil map, the attributes of files,
  the file system seen by \<open>extract\<close>, \<open>humanize.Bytes\<close>, and the two environment flags. What can be
  mapped, the attributes and the file system depend on the calls that \<open>extract\<close> has made so far.
\<close>

record cpio_env =
  Codecs :: codecs
  Spare :: "bytes \<Rightarrow> bytes"
  MapOrder :: "Cpio \<Rightarrow> bytes list"
  MappedFiles :: "fs_hist \<Rightarrow> bytes \<Rightarrow> bytes option"
  UnmapNil :: "unit go"
  Attrs :: "fs_hist \<Rightarrow> bytes \<Rightarrow> file_attr option"
  AbsentDir :: "fs_hist \<Rightarrow> bytes \<Rightarrow> bool"
  SysOk :: "fs_hist \<Rightarrow> fs_op \<Rightarrow> bool"
  Humanize :: "nat \<Rightarrow> bytes"
  KeepVerity :: bool
  KeepForceEncrypt :: bool

record cli_state =
  Archive :: Cpio
  FsCalls :: fs_hist
  Printed :: bytes

definition parseMode :: "bytes \<Rightarrow> u32 go" where
  "parseMode mode =
     (case ParseInt mode 8 32 of
        Inl _ \<Rightarrow> Inl Fatal
      | Inr n \<Rightarrow> Inr (word_of_int n))"

section \<open>One command\<close>

text \<open>\<open>errExit\<close> ends the process with status 125; \<open>fatal_err\<close> is \<open>log.Fatalln\<close> on an error.\<close>

definition errExit :: "'a go" where
  "errExit = Inl (Exit 125)"

definition fatal_err :: "'a go \<Rightarrow> 'a go" where
  "fatal_err r = (case r of Inl (Err _) \<Rightarrow> Inl Fatal | _ \<Rightarrow> r)"

definition with_archive :: "cli_state \<Rightarrow> Cpio \<times> unit go \<Rightarrow> cli_state \<times> unit go" where
  "with_archive s r = (s\<lparr>Archive := fst r\<rparr>, snd r)"

definition ls_lines :: "(nat \<Rightarrow> bytes) \<Rightarrow> (CpioEntry \<times> bytes) list \<Rightarrow> bytes" where
  "ls_lines humanize rows = concat (map (\<lambda>(e, name). Format_entry humanize e @ [9] @ name @ [10]) rows)"

definition ls_command :: "cpio_env \<Rightarrow> bytes list \<Rightarrow> cli_state \<Rightarrow> cli_state \<times> unit go" where
  "ls_command env cmd s =
     (let show_ls = (\<lambda>path recursive.
            (s\<lparr>Printed := Printed s @ ls_lines (Humanize env) (Ls path recursive (Archive s))\<rparr>, Inl (Exit 0)))
      in if length cmd = 1 then show_ls (str ''/'') False
         else if length cmd = 2 then show_ls (cmd ! 1) False
         else if cmd ! 1 = str ''-r'' then show_ls (cmd ! 2) True
         else show_ls (cmd ! 1) False)"

definition rm_command :: "cpio_env \<Rightarrow> bytes list \<Rightarrow> cli_state \<Rightarrow> cli_state \<times> unit go" where
  "rm_command env cmd s =
     (if 1 < length cmd then
        if cmd ! 1 = str ''-r'' then
          (case go_index cmd 2 of
             Inl e \<Rightarrow> (s, Inl e)
           | Inr path \<Rightarrow> (s\<lparr>Archive := Rm (MapOrder env) path True (Archive s)\<rparr>, Inr ()))
        else (s\<lparr>Archive := Rm (MapOrder env) (cmd ! 1) False (Archive s)\<rparr>, Inr ())
      else (s, Inr ()))"

definition add_command :: "cpio_env \<Rightarrow> bytes list \<Rightarrow> cli_state \<Rightarrow> cli_state \<times> unit go" where
  "add_command env cmd s =
     (if 3 < length cmd then
        (case go_bind (parseMode (cmd ! 1)) (\<lambda>mode.
            fatal_err (Add (Attrs env (FsCalls s)) mode (cmd ! 2) (cmd ! 3) (Archive s))) of
           Inl e \<Rightarrow> (s, Inl e)
         | Inr c \<Rightarrow> (s\<lparr>Archive := c\<rparr>, Inr ()))
      else (s, errExit))"

definition extract_command :: "cpio_env \<Rightarrow> bytes list \<Rightarrow> cli_state \<Rightarrow> cli_state \<times> unit go" where
  "extract_command env cmd s =
     (if 1 < length cmd then
        (case Extract (AbsentDir env) (SysOk env) (Some (cmd ! 1))
            (if 2 < length cmd then Some (cmd ! 2) else None) (Archive s) (FsCalls s) of
           (h, r) \<Rightarrow> (s\<lparr>FsCalls := h\<rparr>, fatal_err r))
      else (s, Inr ()))"

definition exec_command :: "cpio_env \<Rightarrow> bytes \<Rightarrow> cli_state \<Rightarrow> cli_state \<times> unit go" where
  "exec_command env command s =
     (if has_prefix command (str ''#'') then (s, Inr ())
      else
        let cmd = split_on 32 command; c = Archive s in
        if hd cmd = str ''test'' then (s, Inl (Exit (Test c)))
        else if hd cmd = str ''restore'' then
          with_archive s (case Restore (Codecs env) (Spare env) c of (c', r) \<Rightarrow> (c', drop_error r))
        else if hd cmd = str ''patch'' then
          with_archive s (Patch (KeepVerity env) (KeepForceEncrypt env) c)
        else if hd cmd = str ''exists'' then
          (s, if 1 < length cmd then Inl (Exit (if Exists (cmd ! 1) c then 0 else 1)) else errExit)
        else if hd cmd = str ''backup'' then
          (if 1 < length cmd then
             let skip_compress = (2 < length cmd \<and> cmd ! 2 = str ''-n'') in
             with_archive s
               (case Backup (Codecs env) (MapOrder env) (MappedFiles env (FsCalls s)) (UnmapNil env) (cmd ! 1)
                   skip_compress c of (c', r) \<Rightarrow> (c', fatal_err r))
           else (s, errExit))
        else if hd cmd = str ''rm'' then rm_command env cmd s
        else if hd cmd = str ''mv'' then
          (if 2 < length cmd then (s\<lparr>Archive := Mv (cmd ! 1) (cmd ! 2) c\<rparr>, Inr ()) else (s, errExit))
        else if hd cmd = str ''ln'' then
          (if 2 < length cmd then (s\<lparr>Archive := Ln (cmd ! 1) (cmd ! 2) c\<rparr>, Inr ()) else (s, errExit))
        else if hd cmd = str ''mkdir'' then
          (if 2 < length cmd then
             (case parseMode (cmd ! 1) of
                Inl e \<Rightarrow> (s, Inl e)
              | Inr mode \<Rightarrow> (s\<lparr>Archive := Mkdir mode (cmd ! 2) c\<rparr>, Inr ()))
           else (s, errExit))
        else if hd cmd = str ''add'' then add_command env cmd s
        else if hd cmd = str ''extract'' then extract_command env cmd s
        else if hd cmd = str ''ls'' then ls_command env cmd s
        else (s, Inr ()))"

section \<open>The whole run\<close>

fun exec_all :: "cpio_env \<Rightarrow> bytes list \<Rightarrow> cli_state \<Rightarrow> cli_state \<times> unit go" where
  "exec_all env [] s = (s, Inr ())"
| "exec_all env (c # cs) s =
     (case exec_command env c s of
        (s', Inl e) \<Rightarrow> (s', Inl e)
      | (s', Inr _) \<Rightarrow> exec_all env cs s')"

definition init_state :: "Cpio \<Rightarrow> cli_state" where
  "init_state c = \<lparr>Archive = c, FsCalls = [], Printed = []\<rparr>"

text \<open>The file and the commands of a command line.\<close>

record CpioCli =
  Cli_File :: bytes
  Cli_Commonds :: "bytes list"

definition NewCpioCli :: CpioCli where
  "NewCpioCli = \<lparr>Cli_File = [], Cli_Commonds = []\<rparr>"

definition FromArgs :: "bytes list \<Rightarrow> CpioCli \<Rightarrow> CpioCli go" where
  "FromArgs args cli =
     go_bind (go_index args 0) (\<lambda>first.
     go_bind (go_slice args 1 (length args)) (\<lambda>others.
       Inr (cli\<lparr>Cli_File := first, Cli_Commonds := others\<rparr>)))"

lemma FromArgs_Cons [simp]: "FromArgs (f # cs) cli = Inr \<lparr>Cli_File = f, Cli_Commonds = cs\<rparr>"
  by (simp add: FromArgs_def go_index_def go_slice_def)

text \<open>
  The result is what the archive file is overwritten with, if it is, the last state, and how
  the run ends. \<open>exists_file\<close> is \<open>os.Stat\<close>, \<open>can_create\<close> the outcome of \<open>os.Create\<close> in \<open>Dump\<close>.
\<close>

definition CpioCommands ::
  "cpio_env \<Rightarrow> (bytes \<Rightarrow> bool) \<Rightarrow> bool \<Rightarrow> bytes list \<Rightarrow> bytes option \<times> cli_state \<times> unit go" where
  "CpioCommands env exists_file can_create argv =
     (if length argv < 1 then (None, init_state NewCpio, Inl Fatal)
      else case FromArgs argv NewCpioCli of
        Inl e \<Rightarrow> (None, init_state NewCpio, Inl e)
      | Inr cli \<Rightarrow>
          (case (if exists_file (Cli_File cli) then LoadFromFile (MappedFiles env []) (Cli_File cli) NewCpio
                 else (NewCpio, Inr ())) of
             (c, Inl e) \<Rightarrow> (None, init_state c, fatal_err (Inl e))
           | (c, Inr _) \<Rightarrow>
               (case exec_all env (Cli_Commonds cli) (init_state c) of
                  (s, Inl e) \<Rightarrow> (None, s, Inl e)
                | (s, Inr _) \<Rightarrow>
                    if can_create then (Some (dump_bytes (Archive s)), s, Inr ())
                    else (None, s, Inl Fatal))))"

section \<open>The invariant of every run\<close>

text \<open>The states that commands which go on can reach.\<close>

inductive cli_reach :: "cpio_env \<Rightarrow> cli_state \<Rightarrow> cli_state \<Rightarrow> bool" for env where
  start: "cli_reach env s s"
| step: "cli_reach env s t \<Longrightarrow> exec_command env c t = (u, Inr ()) \<Longrightarrow> cli_reach env s u"

inductive_cases cli_reach_cases: "cli_reach env s t"

lemma cli_reach_trans: "cli_reach env t u \<Longrightarrow> cli_reach env s t \<Longrightarrow> cli_reach env s u"
  by (induction rule: cli_reach.induct) (auto intro: cli_reach.intros)

lemma exec_all_append:
  "exec_all env (cs @ ds) s =
     (case exec_all env cs s of (t, Inl e) \<Rightarrow> (t, Inl e) | (t, Inr _) \<Rightarrow> exec_all env ds t)"
  by (induction cs arbitrary: s) (auto split: prod.splits sum.splits)

lemma cli_reach_iff: "cli_reach env s t \<longleftrightarrow> (\<exists>cs. exec_all env cs s = (t, Inr ()))"
proof
  assume "cli_reach env s t"
  then show "\<exists>cs. exec_all env cs s = (t, Inr ())"
  proof (induction rule: cli_reach.induct)
    case (start s)
    show ?case by (rule exI [of _ "[]"]) simp
  next
    case (step s t c u)
    then obtain cs where "exec_all env cs s = (t, Inr ())" by blast
    with step.hyps(2) have "exec_all env (cs @ [c]) s = (u, Inr ())" by (simp add: exec_all_append)
    then show ?case by blast
  qed
next
  assume "\<exists>cs. exec_all env cs s = (t, Inr ())"
  then obtain cs where "exec_all env cs s = (t, Inr ())" ..
  then show "cli_reach env s t"
  proof (induction cs arbitrary: s)
    case (Cons c cs)
    then obtain u where u: "exec_command env c s = (u, Inr ())" "exec_all env cs u = (t, Inr ())"
      by (auto split: prod.splits sum.splits)
    have "cli_reach env s u" by (rule cli_reach.step [OF cli_reach.start u(1)])
    with Cons.IH [OF u(2)] cli_reach_trans show ?case by blast
  qed (simp add: cli_reach.start)
qed

lemma covered_Add: "covered c \<Longrightarrow> Add fs mode path file c = Inr c' \<Longrightarrow> covered c'"
  by (auto simp: Add_def covered_addEntry split: if_splits option.splits prod.splits)

lemma covered_Mkdir: "covered c \<Longrightarrow> covered (Mkdir mode dir c)"
  by (simp add: Mkdir_def covered_addEntry)

lemma covered_Ln: "covered c \<Longrightarrow> covered (Ln src dst c)"
  by (simp add: Ln_def covered_addEntry)

lemmas covered_ops = covered_Rm covered_Mv covered_Mkdir covered_Ln covered_Patch covered_Restore covered_Backup

lemma fatal_err_Inr [simp]: "fatal_err r = Inr x \<longleftrightarrow> r = Inr x"
  by (cases r) (auto simp: fatal_err_def split: go_exit.splits)

lemma covered_add_command:
  "covered (Archive s) \<Longrightarrow> covered (Archive (fst (add_command env cmd s)))"
  by (auto simp: add_command_def go_bind_Inr_iff intro: covered_Add split: sum.splits)

lemma covered_if:
  "(b \<Longrightarrow> covered (Archive (fst x))) \<Longrightarrow> (\<not> b \<Longrightarrow> covered (Archive (fst y))) \<Longrightarrow>
   covered (Archive (fst (if b then x else y)))"
  by simp

lemma covered_with_archive: "covered (fst r) \<Longrightarrow> covered (Archive (fst (with_archive s r)))"
  by (simp add: with_archive_def)

lemma fst_map_result: "fst (case p of (c, r) \<Rightarrow> (c, f r)) = fst p"
  by (cases p) simp

lemma covered_rm_command: "covered (Archive s) \<Longrightarrow> covered (Archive (fst (rm_command env cmd s)))"
  by (simp add: rm_command_def covered_Rm split: sum.split)

lemma covered_mode_case:
  "covered (Archive s) \<Longrightarrow>
   covered (Archive (fst (case m of Inl e \<Rightarrow> (s, Inl e) | Inr mode \<Rightarrow> (s\<lparr>Archive := Mkdir mode d (Archive s)\<rparr>, r))))"
  by (simp add: covered_Mkdir split: sum.split)

lemma Archive_extract_ls:
  "Archive (fst (extract_command env cmd s)) = Archive s" "Archive (fst (ls_command env cmd s)) = Archive s"
  by (simp_all add: extract_command_def ls_command_def Let_def split: prod.split)

lemma covered_command: "covered (Archive s) \<Longrightarrow> covered (Archive (fst (exec_command env c s)))"
  unfolding exec_command_def Let_def
  by (intro covered_if covered_with_archive covered_mode_case covered_rm_command covered_add_command)
    (simp_all add: covered_ops fst_map_result Archive_extract_ls)

lemma covered_exec_all: "covered (Archive s) \<Longrightarrow> covered (Archive (fst (exec_all env cs s)))"
proof (induction cs arbitrary: s)
  case (Cons c cs)
  from covered_command [OF Cons.prems, of env c] Cons.IH show ?case
    by (cases "exec_command env c s"; cases "snd (exec_command env c s)") auto
qed simp

text \<open>The states that the commands can reach from a state with the invariant have it.\<close>

lemma reach_covered: "cli_reach env s t \<Longrightarrow> covered (Archive s) \<Longrightarrow> covered (Archive t)"
proof (induction rule: cli_reach.induct)
  case (step s t c u)
  then have "covered (Archive (fst (exec_command env c t)))" by (intro covered_command) simp
  with step.hyps(2) show ?case by simp
qed

definition load_archive :: "cpio_env \<Rightarrow> (bytes \<Rightarrow> bool) \<Rightarrow> bytes \<Rightarrow> Cpio \<times> unit go" where
  "load_archive env exists_file path =
     (if exists_file path then LoadFromFile (MappedFiles env []) path NewCpio else (NewCpio, Inr ()))"

lemma covered_load: "load_archive env exists_file path = (c, r) \<Longrightarrow> covered c"
  using covered_LoadFromFile [OF covered_NewCpio, of "MappedFiles env []" path] covered_NewCpio
  by (auto simp: load_archive_def split: if_splits)

lemma CpioCommands_Cons:
  "CpioCommands env exists_file can_create (path # commands) =
     (case load_archive env exists_file path of
        (c, Inl e) \<Rightarrow> (None, init_state c, fatal_err (Inl e))
      | (c, Inr _) \<Rightarrow>
          (case exec_all env commands (init_state c) of
             (s, Inl e) \<Rightarrow> (None, s, Inl e)
           | (s, Inr _) \<Rightarrow>
               if can_create then (Some (dump_bytes (Archive s)), s, Inr ()) else (None, s, Inl Fatal)))"
  by (simp add: CpioCommands_def load_archive_def)

text \<open>
  C17. In every run, however it ends, each entry of the archive has a key: no command, and no
  loading of a file, ever leaves an entry that a dump or a listing would not show.
\<close>

theorem run_covered: "covered (Archive (fst (snd (CpioCommands env exists_file can_create argv))))"
proof (cases argv)
  case Nil
  then show ?thesis by (simp add: CpioCommands_def init_state_def covered_NewCpio)
next
  case (Cons path commands)
  obtain c r where c: "load_archive env exists_file path = (c, r)" by (cases "load_archive env exists_file path")
  then have i: "covered (Archive (init_state c))" using covered_load by (simp add: init_state_def)
  then show ?thesis
    using covered_exec_all [OF i, of env commands] c
    by (auto simp: Cons CpioCommands_Cons split: sum.split prod.split)
qed

section \<open>When the file is written\<close>

text \<open>
  The archive file is written exactly when it could be loaded, every command went on and
  the file can be created, and then with the dump of the archive that the commands reach.
  So nothing before \<open>test\<close>, \<open>exists\<close>, \<open>ls\<close> or a failing command is saved.
\<close>

theorem run_writes_iff:
  "fst (CpioCommands env exists_file can_create (path # commands)) = Some out \<longleftrightarrow>
     can_create \<and> (\<exists>c s. load_archive env exists_file path = (c, Inr ())
       \<and> exec_all env commands (init_state c) = (s, Inr ()) \<and> cli_reach env (init_state c) s
       \<and> out = dump_bytes (Archive s))"
  using cli_reach_iff [of env]
  by (auto simp: CpioCommands_Cons split: sum.split prod.split)

definition ends :: "bytes \<Rightarrow> bool" where
  "ends command \<longleftrightarrow> hd (split_on 32 command) \<in> {str ''test'', str ''exists'', str ''ls''}"

lemma ends_exec: "ends command \<Longrightarrow> \<exists>s' n. exec_command env command s = (s', Inl (Exit n))"
proof -
  assume e: "ends command"
  have n: "\<not> has_prefix command (str ''#'')"
  proof
    assume "has_prefix command (str ''#'')"
    then obtain t where "command = 35 # t" by (auto simp: has_prefix_iff str_def)
    with e show False
      by (cases "split_on 32 t") (auto simp: ends_def str_def)
  qed
  have d: "str ''exists'' \<noteq> str ''test''" "str ''ls'' \<noteq> str ''test''" "str ''ls'' \<noteq> str ''exists''"
    "str ''exists'' \<notin> {str ''restore'', str ''patch''}"
    "str ''ls'' \<notin> {str ''restore'', str ''patch'', str ''backup'', str ''rm'', str ''mv'', str ''ln'',
      str ''mkdir'', str ''add'', str ''extract''}"
    by code_simp+
  from e consider "hd (split_on 32 command) = str ''test''" | "hd (split_on 32 command) = str ''exists''"
    | "hd (split_on 32 command) = str ''ls''"
    by (auto simp: ends_def)
  then show ?thesis
  proof cases
    case 1
    with n show ?thesis by (simp add: exec_command_def Let_def)
  next
    case 2
    with n d show ?thesis by (simp add: exec_command_def Let_def errExit_def)
  next
    case 3
    with n d show ?thesis by (simp add: exec_command_def Let_def ls_command_def)
  qed
qed

text \<open>Only \<open>extract\<close> makes file system calls.\<close>

definition extracts :: "bytes \<Rightarrow> bool" where
  "extracts command \<longleftrightarrow> hd (split_on 32 command) = str ''extract''"

lemma FsCalls_command: "\<not> extracts command \<Longrightarrow> FsCalls (fst (exec_command env command s)) = FsCalls s"
  by (simp add: exec_command_def extracts_def with_archive_def rm_command_def add_command_def ls_command_def
      Let_def split: sum.split)

lemma FsCalls_exec_all:
  "\<forall>c \<in> set commands. \<not> extracts c \<Longrightarrow> FsCalls (fst (exec_all env commands s)) = FsCalls s"
proof (induction commands arbitrary: s)
  case (Cons c cs)
  obtain t r where t: "exec_command env c s = (t, r)" by (cases "exec_command env c s")
  with Cons FsCalls_command [of c env s] show ?case by (cases r) simp_all
qed simp

lemma FsCalls_run:
  assumes "\<forall>c \<in> set commands. \<not> extracts c"
  shows "FsCalls (fst (snd (CpioCommands env exists_file can_create (path # commands)))) = []"
proof -
  have "FsCalls t = []" if "exec_all env commands (init_state c) = (t, r)" for c t r
    using FsCalls_exec_all [OF assms, of env "init_state c"] that by (simp add: init_state_def)
  then show ?thesis by (auto simp: CpioCommands_Cons init_state_def split: prod.split sum.split)
qed

text \<open>
  A run with a \<open>test\<close>, \<open>exists\<close> or \<open>ls\<close> among its commands never writes the file, whatever
  the commands before and after it do.
\<close>

lemma run_ends_unsaved:
  assumes "\<exists>c \<in> set commands. ends c"
  shows "fst (CpioCommands env exists_file can_create (path # commands)) = None"
proof -
  from assms obtain cs c ds where split: "commands = cs @ c # ds" "ends c" by (auto dest: split_list)
  have "\<exists>t e. exec_all env commands s = (t, Inl e)" for s
  proof (cases "exec_all env cs s")
    case (Pair t r)
    show ?thesis
    proof (cases r)
      case (Inl e)
      with Pair show ?thesis by (simp add: split exec_all_append)
    next
      case (Inr u)
      with Pair ends_exec [OF split(2), of env t] show ?thesis by (auto simp: split exec_all_append)
    qed
  qed
  then show ?thesis
    by (auto simp: CpioCommands_Cons split: sum.split prod.split) (metis Inl_Inr_False prod.inject)
qed

definition default_env :: cpio_env where
  "default_env = \<lparr>Codecs = store_codecs, Spare = \<lambda>_. [], MapOrder = key_order,
     MappedFiles = \<lambda>_ f. if f = str ''ramdisk'' then Some (dump_bytes two_entries)
                        else if f = str ''text'' then Some (replicate 110 65) else None,
     UnmapNil = Inl (Panic NilDereference), Attrs = \<lambda>_ _. None, AbsentDir = \<lambda>_ _. False,
     SysOk = \<lambda>_ _. True, Humanize = decimal, KeepVerity = False, KeepForceEncrypt = False\<rparr>"

section \<open>Runs without commands\<close>

text \<open>
  Without commands, whatever could be read is written again; an error of the parser is dropped, a
  panic is not.
\<close>

lemma run_no_commands:
  assumes "exists_file path" "MappedFiles env [] path = Some data"
    and "LoadFromData NewCpio data = (c, r)" "\<not> is_panic r"
  shows "CpioCommands env exists_file True [path] = (Some (dump_bytes c), init_state c, Inr ())"
proof -
  have "drop_error r = Inr ()"
    using load_loop_outcomes [of data 0 NewCpio c r] assms(3,4)
    by (cases r) (auto simp: LoadFromData_def load_errors_def drop_error_def)
  then have "load_archive env exists_file path = (c, Inr ())"
    using assms(1-3) by (simp add: load_archive_def LoadFromFile_def)
  then show ?thesis by (simp add: CpioCommands_Cons init_state_def)
qed

lemma two_entries_fit:
  "\<forall>k \<in> set (Keys two_entries). plain_name k
     \<and> entry_fits (300000 + length (Keys two_entries)) k (entry_at two_entries k)"
  "300000 + length (Keys two_entries) < 2 ^ 32"
  by (simp_all add: two_entries_def plain_name_def entry_fits_def entry_at_def trailer_name_def str_def)

lemma load_bad_magic:
  assumes "110 \<le> length content" "take 6 content \<noteq> cpio_magic"
  shows "LoadFromData c content = (c, Inl (Err InvalidCpioMagic))"
proof -
  have s: "go_slice content 0 110 = Inr (take 110 content)" using assms(1) by (simp add: go_slice_def)
  have "\<exists>r. get_CpioHeader (take 110 content) = Some r"
    using assms(1) by (intro cpio_header.dec_total) simp
  then obtain h r where h: "get_CpioHeader (take 110 content) = Some (h, r)" by auto
  from cpio_header.dec_sound [OF h] have "take 110 content = cpio_header_bytes h @ r" "length (Magic h) = 6"
    by (simp_all add: cpio_header_ok_def)
  then have "take 6 (take 110 content) = Magic h" by (simp add: cpio_header_bytes_def)
  then have "Magic h \<noteq> cpio_magic" using assms(2) by simp
  with s h have "load_step content 0 c = (c, Inl (Inl (Err InvalidCpioMagic)))" by (simp add: load_step_def)
  moreover have "0 < length content" using assms(1) by (cases content) auto
  ultimately show ?thesis by (simp add: LoadFromData_def load_loop.simps [of content 0])
qed

text \<open>
  A file that is not an archive is taken for an empty one: without commands the run
  succeeds and overwrites it with an archive that holds only the trailer.
\<close>

theorem run_overwrites_non_archive:
  assumes "exists_file path" "MappedFiles env [] path = Some content"
    and "110 \<le> length content" "take 6 content \<noteq> cpio_magic"
  shows "fst (CpioCommands env exists_file True [path]) = Some (dump_trailer 0 300000)
    \<and> snd (snd (CpioCommands env exists_file True [path])) = Inr ()"
proof -
  have "load_archive env exists_file path = (NewCpio, Inr ())"
    using load_bad_magic [OF assms(3,4)] assms(1,2)
    by (simp add: load_archive_def LoadFromFile_def drop_error_def)
  moreover have "dump_bytes NewCpio = dump_trailer 0 300000"
    by (simp add: dump_bytes_def NewCpio_def)
  ultimately show ?thesis by (simp add: CpioCommands_Cons init_state_def)
qed

theorem run_overwrites_non_archive_witness:
  "fst (CpioCommands default_env (\<lambda>_. True) True [str ''text'']) = Some (dump_trailer 0 300000)"
proof -
  have m: "MappedFiles default_env [] (str ''text'') = Some (replicate 110 65)"
    by (simp add: default_env_def str_def)
  have "take 6 (replicate 110 65) \<noteq> cpio_magic" by code_simp
  then show ?thesis
    using run_overwrites_non_archive [where exists_file = "\<lambda>_. True", OF TrueI m] by simp
qed

end
