(* ===== verification/Cpio_Edits.thy ===== *)
theory Cpio_Edits
  imports Cpio_Cli
begin

text \<open>
  What the commands that edit an archive promise, first without keys: an archive is a map from
  names to entries, and each command changes that map; then with the list of names that a dump
  writes. The locale \<open>simulation\<close> says that the
  steps of a detailed machine are those of an abstract one; its interpretation proves it for
  the texts of the commands \<open>rm\<close>, \<open>mv\<close>, \<open>ln\<close>, \<open>mkdir\<close>, \<open>add\<close> and of comments, as the interpreter reads
  them.
\<close>

section \<open>Simulation of runs\<close>

text \<open>A run stops at the first step that does not go on.\<close>

fun run_all :: "('c \<Rightarrow> 's \<Rightarrow> 's \<times> unit go) \<Rightarrow> 'c list \<Rightarrow> 's \<Rightarrow> 's \<times> unit go" where
  "run_all step [] s = (s, Inr ())"
| "run_all step (c # cs) s =
     (case step c s of (s', Inl e) \<Rightarrow> (s', Inl e) | (s', Inr _) \<Rightarrow> run_all step cs s')"

locale simulation =
  fixes view :: "'s \<Rightarrow> 'a"
    and inv :: "'s \<Rightarrow> bool"
    and step :: "'c \<Rightarrow> 's \<Rightarrow> 's \<times> unit go"
    and promise :: "'c \<Rightarrow> 'a \<Rightarrow> 'a \<times> unit go"
    and legal :: "'c \<Rightarrow> bool"
  assumes step_inv: "inv s \<Longrightarrow> legal c \<Longrightarrow> inv (fst (step c s))"
    and step_promise: "inv s \<Longrightarrow> legal c \<Longrightarrow> map_prod view id (step c s) = promise c (view s)"
begin

lemma run_inv: "inv s \<Longrightarrow> list_all legal cs \<Longrightarrow> inv (fst (run_all step cs s))"
proof (induction cs arbitrary: s)
  case (Cons c cs)
  obtain t r where t: "step c s = (t, r)" by (cases "step c s")
  with step_inv [OF Cons.prems(1), of c] Cons.prems(2) have "inv t" by simp
  with Cons t show ?case by (cases r) simp_all
qed simp

lemma run_promise:
  "inv s \<Longrightarrow> list_all legal cs \<Longrightarrow> map_prod view id (run_all step cs s) = run_all promise cs (view s)"
proof (induction cs arbitrary: s)
  case (Cons c cs)
  obtain t r where t: "step c s = (t, r)" by (cases "step c s")
  with step_inv [OF Cons.prems(1), of c] Cons.prems(2) have i: "inv t" by simp
  have p: "promise c (view s) = (view t, r)" using step_promise [OF Cons.prems(1), of c] Cons.prems(2) t by simp
  show ?case using Cons.IH [OF i] Cons.prems(2) t p by (cases r) simp_all
qed simp

end

section \<open>Commands and their texts\<close>

datatype edit =
    EditRm bool bytes
  | EditMv bytes bytes
  | EditLn bytes bytes
  | EditMkdir bytes bytes
  | EditAdd bytes bytes bytes
  | EditNote bytes

fun edit_words :: "edit \<Rightarrow> bytes list" where
  "edit_words (EditRm recursive path) = [str ''rm''] @ (if recursive then [str ''-r''] else []) @ [path]"
| "edit_words (EditMv from to) = [str ''mv'', from, to]"
| "edit_words (EditLn target path) = [str ''ln'', target, path]"
| "edit_words (EditMkdir mode path) = [str ''mkdir'', mode, path]"
| "edit_words (EditAdd mode path source) = [str ''add'', mode, path, source]"
| "edit_words (EditNote note) = [str ''#'' @ note]"

definition edit_text :: "edit \<Rightarrow> bytes" where
  "edit_text e = join_with [32] (edit_words e)"

text \<open>Arguments have no spaces; a comment may be anything; \<open>rm -r\<close> alone has no path.\<close>

fun spoken :: "edit \<Rightarrow> bool" where
  "spoken (EditNote note) = True"
| "spoken (EditRm recursive path) = (32 \<notin> set path \<and> (recursive \<or> path \<noteq> str ''-r''))"
| "spoken e = list_all (\<lambda>w. 32 \<notin> set w) (edit_words e)"

section \<open>What each command promises\<close>

type_synonym tree = "bytes \<rightharpoonup> CpioEntry"

text \<open>The entry that \<open>add\<close> makes of a file.\<close>

definition file_entry :: "file_attr \<Rightarrow> u32 \<Rightarrow> CpioEntry go" where
  "file_entry attr mode =
     (if IsRegular attr \<or> IsSymlink attr then
        (case FileData attr of
           None \<Rightarrow> Inl Fatal
         | Some d \<Rightarrow> Inr (zero_entry\<lparr>Mode := mode OR S_IFREG, Data := d\<rparr>))
      else case Rdev attr of
        None \<Rightarrow> Inl Fatal
      | Some (major, minor) \<Rightarrow>
          if IsDevice attr then
            Inr (zero_entry\<lparr>Mode := mode OR S_IFBLK, RDevMajor := major, RDevMinor := minor\<rparr>)
          else if IsCharDevice attr then
            Inr (zero_entry\<lparr>Mode := mode OR S_IFCHR, RDevMajor := major, RDevMinor := minor\<rparr>)
          else Inl Fatal)"

definition link_target :: "bytes \<Rightarrow> bytes" where
  "link_target p = (if has_prefix p [slash] then slash # norm_path p else norm_path p)"

definition bound :: "tree \<Rightarrow> bytes \<Rightarrow> CpioEntry" where
  "bound m k = (case m k of None \<Rightarrow> zero_entry | Some e \<Rightarrow> e)"

text \<open>
  A command puts an entry, if it can make one, or fails and changes nothing. The file system that
  \<open>add\<close> looks at is the one after the calls \<open>h\<close>.
\<close>

definition put_result :: "bytes \<Rightarrow> CpioEntry go \<Rightarrow> tree \<Rightarrow> tree \<times> unit go" where
  "put_result path r m = (case r of Inl x \<Rightarrow> (m, Inl x) | Inr e \<Rightarrow> (m(norm_path path \<mapsto> e), Inr ()))"

fun promised :: "cpio_env \<Rightarrow> fs_hist \<Rightarrow> edit \<Rightarrow> tree \<Rightarrow> tree \<times> unit go" where
  "promised env h (EditRm recursive path) m = (m |` {k. \<not> rm_match path recursive k}, Inr ())"
| "promised env h (EditMv from to) m =
     (m(norm_path from := None, norm_path to \<mapsto> bound m (norm_path from)), Inr ())"
| "promised env h (EditLn target path) m =
     (m(norm_path path \<mapsto> zero_entry\<lparr>Mode := S_IFLNK, Data := link_target target\<rparr>), Inr ())"
| "promised env h (EditMkdir mode path) m =
     put_result path (go_bind (parseMode mode) (\<lambda>w. Inr (zero_entry\<lparr>Mode := w OR S_IFDIR\<rparr>))) m"
| "promised env h (EditAdd mode path source) m =
     put_result path (go_bind (parseMode mode) (\<lambda>w.
       if has_suffix path [slash] then Inl Fatal
       else case Attrs env h source of None \<Rightarrow> Inl Fatal | Some attr \<Rightarrow> file_entry attr w)) m"
| "promised env h (EditNote note) m = (m, Inr ())"

section \<open>The interpreter keeps the promises\<close>

lemma verb_words:
  "32 \<notin> set (str ''rm'')" "32 \<notin> set (str ''-r'')" "32 \<notin> set (str ''mv'')" "32 \<notin> set (str ''ln'')"
  "32 \<notin> set (str ''mkdir'')" "32 \<notin> set (str ''add'')"
  by code_simp+

lemma split_edit_text:
  "spoken e \<Longrightarrow> (\<And>note. e \<noteq> EditNote note) \<Longrightarrow> split_on 32 (edit_text e) = edit_words e"
  unfolding edit_text_def by (cases e) (auto simp: verb_words split_on_append split_on_id)

lemma edit_text_note: "has_prefix (edit_text e) (str ''#'') \<longleftrightarrow> (\<exists>note. e = EditNote note)"
  by (cases e) (auto simp: edit_text_def str_def)

lemma edit_text_command:
  assumes "spoken e" "\<And>note. e \<noteq> EditNote note" "edit_words e = str verb # args"
  shows "\<not> has_prefix (edit_text e) (str ''#'')" "split_on 32 (edit_text e) = str verb # args"
  using assms(2) split_edit_text [OF assms(1,2)] assms(3) by (simp_all add: edit_text_note)

lemma exec_note: "exec_command env (edit_text (EditNote note)) s = (s, Inr ())"
proof -
  have "has_prefix (edit_text (EditNote note)) (str ''#'')" by (simp add: edit_text_note)
  then show ?thesis by (simp add: exec_command_def)
qed

lemma exec_rm:
  assumes "spoken (EditRm recursive path)"
  shows "exec_command env (edit_text (EditRm recursive path)) s =
    (s\<lparr>Archive := Rm (MapOrder env) path recursive (Archive s)\<rparr>, Inr ())"
  using edit_text_command [OF assms, of "''rm''"] assms
  by (cases recursive) (simp_all add: exec_command_def rm_command_def go_index_def str_eq_iff Let_def)

lemma exec_mv:
  assumes "spoken (EditMv from to)"
  shows "exec_command env (edit_text (EditMv from to)) s = (s\<lparr>Archive := Mv from to (Archive s)\<rparr>, Inr ())"
  using edit_text_command [OF assms, of "''mv''"] by (simp add: exec_command_def str_eq_iff Let_def)

lemma exec_ln:
  assumes "spoken (EditLn target path)"
  shows "exec_command env (edit_text (EditLn target path)) s = (s\<lparr>Archive := Ln target path (Archive s)\<rparr>, Inr ())"
  using edit_text_command [OF assms, of "''ln''"] by (simp add: exec_command_def str_eq_iff Let_def)

lemma exec_mkdir:
  assumes "spoken (EditMkdir mode path)"
  shows "exec_command env (edit_text (EditMkdir mode path)) s =
    (case parseMode mode of
       Inl x \<Rightarrow> (s, Inl x)
     | Inr w \<Rightarrow> (s\<lparr>Archive := Mkdir w path (Archive s)\<rparr>, Inr ()))"
  using edit_text_command [OF assms, of "''mkdir''"] by (simp add: exec_command_def str_eq_iff Let_def split: sum.split)

lemma exec_add:
  assumes "spoken (EditAdd mode path source)"
  shows "exec_command env (edit_text (EditAdd mode path source)) s =
    add_command env [str ''add'', mode, path, source] s"
  using edit_text_command [OF assms, of "''add''"] by (simp add: exec_command_def str_eq_iff Let_def)

lemmas exec_edit = exec_note exec_rm exec_mv exec_ln exec_mkdir exec_add

lemma Add_file_entry:
  "fatal_err (Add fs mode path file c) =
    (if has_suffix path [slash] then Inl Fatal
     else case fs file of
       None \<Rightarrow> Inl Fatal
     | Some attr \<Rightarrow> go_bind (file_entry attr mode) (\<lambda>e. Inr (addEntry (norm_path path) e c)))"
proof (cases "has_suffix path [slash] \<or> fs file = None")
  case False
  then obtain attr where a: "fs file = Some attr" "\<not> has_suffix path [slash]" by auto
  show ?thesis
  proof (cases "IsRegular attr \<or> IsSymlink attr")
    case True
    with a show ?thesis
      by (cases "FileData attr") (simp_all add: Add_def file_entry_def fatal_err_def zero_entry_def)
  next
    case False
    with a show ?thesis
      by (cases "Rdev attr") (simp_all add: Add_def file_entry_def fatal_err_def zero_entry_def split: prod.split)
  qed
qed (auto simp: Add_def fatal_err_def)

lemma exec_promised:
  assumes "ranges (MapOrder env)" "covered (Archive s)" "spoken e"
  shows "map_prod (\<lambda>s. Entries (Archive s)) id (exec_command env (edit_text e) s)
    = promised env (FsCalls s) e (Entries (Archive s))"
proof (cases e)
  case (EditRm recursive path)
  with assms show ?thesis by (simp add: exec_edit Entries_Rm)
next
  case (EditMv src dst)
  with assms show ?thesis
    by (simp add: exec_edit Mv_def Let_def addEntry_def bound_def entry_at_def)
next
  case (EditLn target path)
  with assms show ?thesis
    by (simp add: exec_edit Ln_def addEntry_def link_target_def zero_entry_def)
next
  case (EditMkdir mode path)
  with assms show ?thesis
    by (simp add: exec_edit Mkdir_def addEntry_def put_result_def zero_entry_def split: sum.split)
next
  case (EditAdd mode path source)
  have "go_bind m (\<lambda>w. if b then Inl x else f w) = (if b then go_bind m (\<lambda>_. Inl x) else go_bind m f)"
    for m :: "'x go" and b x and f :: "'x \<Rightarrow> 'y go" by simp
  with EditAdd assms show ?thesis
    by (auto simp: exec_edit add_command_def Add_file_entry addEntry_def put_result_def go_bind_def
        split: sum.splits option.splits)
next
  case (EditNote remark)
  with assms show ?thesis by (simp add: exec_edit)
qed

lemma exec_all_run_all: "exec_all env (map f cs) s = run_all (\<lambda>c. exec_command env (f c)) cs s"
  by (induction cs arbitrary: s) (simp_all split: prod.split sum.split)

text \<open>The editing commands print nothing on the standard output and call no file system operation.\<close>

lemma edit_quiet:
  "spoken e \<Longrightarrow> FsCalls (fst (exec_command env (edit_text e) s)) = FsCalls s
    \<and> Printed (fst (exec_command env (edit_text e) s)) = Printed s"
  by (cases e) (simp_all add: exec_edit add_command_def split: sum.split)

lemma edits_quiet:
  "list_all spoken es \<Longrightarrow> FsCalls (fst (exec_all env (map edit_text es) s)) = FsCalls s
    \<and> Printed (fst (exec_all env (map edit_text es) s)) = Printed s"
proof (induction es arbitrary: s)
  case (Cons e es)
  obtain t r where t: "exec_command env (edit_text e) s = (t, r)" by (cases "exec_command env (edit_text e) s")
  with Cons edit_quiet [of e env s] show ?case by (cases r) simp_all
qed simp

interpretation edits: simulation "\<lambda>s. Entries (Archive s)" "\<lambda>s. covered (Archive s) \<and> FsCalls s = h"
  "\<lambda>e. exec_command env (edit_text e)" "promised env h" "\<lambda>e. ranges (MapOrder env) \<and> spoken e" for env h
  by unfold_locales (auto simp add: covered_command exec_promised edit_quiet)

lemma edits_promise:
  "ranges (MapOrder env) \<Longrightarrow> covered (Archive s) \<Longrightarrow> list_all spoken es \<Longrightarrow>
   map_prod (\<lambda>s. Entries (Archive s)) id (exec_all env (map edit_text es) s)
     = run_all (promised env (FsCalls s)) es (Entries (Archive s))"
  using edits.run_promise [where cs = es and env = env and s = s and h = "FsCalls s"]
  by (simp add: exec_all_run_all list_all_iff)

text \<open>
  C5. A run of editing commands refines the same run on maps from names to entries, which knows no
  keys: \<open>rm\<close> restricts the map, \<open>mv\<close> rebinds, \<open>ln\<close>, \<open>mkdir\<close> and \<open>add\<close> bind the normalised path to the entry
  that the arguments describe, comments do nothing; the run ends at the first command that
  cannot make its entry, in the same way and with the map it had then.
\<close>

theorem edits_refine:
  assumes "ranges (MapOrder env)" "covered (Archive s)" "list_all spoken es"
  shows "map_prod (\<lambda>s. Entries (Archive s)) id (exec_all env (map edit_text es) s)
    = run_all (promised env (FsCalls s)) es (Entries (Archive s))"
  using assms by (rule edits_promise)

theorem edits_refine_witness:
  "map_prod (\<lambda>s. Entries (Archive s)) id
     (exec_all default_env [str ''# no root'', str ''rm -r sbin'', str ''mv init init.real'', str ''mkdir 9 dev'', str ''rm init.real'']
       (init_state small_archive))
   = ([str ''init.real'' \<mapsto> zero_entry], Inl Fatal)"
proof -
  let ?es = "[EditNote (str '' no root''), EditRm True (str ''sbin''), EditMv (str ''init'') (str ''init.real''),
    EditMkdir (str ''9'') (str ''dev''), EditRm False (str ''init.real'')]"
  have t: "map edit_text ?es =
      [str ''# no root'', str ''rm -r sbin'', str ''mv init init.real'', str ''mkdir 9 dev'', str ''rm init.real'']"
    by code_simp
  have "ranges (MapOrder default_env)" by (simp add: default_env_def ranges_key_order)
  moreover have "covered (Archive (init_state small_archive))" by (simp add: init_state_def small_archive_ok)
  moreover have "list_all spoken ?es" by code_simp
  ultimately have run: "map_prod (\<lambda>s. Entries (Archive s)) id (exec_all default_env (map edit_text ?es) (init_state small_archive))
      = run_all (promised default_env []) ?es (Entries small_archive)"
    using edits_refine [of default_env "init_state small_archive" ?es] by (simp add: init_state_def)
  have m: "rm_match (str ''sbin'') True (str ''sbin'')" "rm_match (str ''sbin'') True (str ''sbin/su'')"
    "\<not> rm_match (str ''sbin'') True (str ''init'')"
    "norm_path (str ''init'') = str ''init''" "norm_path (str ''init.real'') = str ''init.real''" by code_simp+
  have p: "parseMode (str ''9'') = Inl Fatal"
    by (simp add: parseMode_def ParseInt_def ParseUint_def digit_val_def str_def Let_def)
  have "(Entries small_archive) |` {k. \<not> rm_match (str ''sbin'') True k} = [str ''init'' \<mapsto> zero_entry]"
    using m(1-3) by (auto simp: small_archive_def addEntry_def NewCpio_def restrict_map_def fun_eq_iff)
  moreover have "run_all (promised default_env []) ?es M
      = run_all (promised default_env []) (drop 2 ?es) (M |` {k. \<not> rm_match (str ''sbin'') True k})" for M by simp
  ultimately have "run_all (promised default_env []) ?es (Entries small_archive)
      = run_all (promised default_env []) (drop 2 ?es) [str ''init'' \<mapsto> zero_entry]" by (simp only:)
  also have "\<dots> = ([str ''init.real'' \<mapsto> zero_entry], Inl Fatal)"
    by (simp add: m(4,5) p bound_def put_result_def str_simps)
  finally show ?thesis using run unfolding t by (rule trans [rotated])
qed

section \<open>The names that are written\<close>

text \<open>
  A dump writes an entry for each name in the key list, so the promise for the file includes that
  list. \<open>rm\<close> takes one occurrence of each bound name that it matches; \<open>mv\<close> takes every occurrence
  of the old name; a new name is put among the others, which are sorted.
\<close>

fun drop_firsts :: "('a \<Rightarrow> bool) \<Rightarrow> 'a list \<Rightarrow> 'a list" where
  "drop_firsts P [] = []"
| "drop_firsts P (x # xs) =
     (if P x then drop_firsts (\<lambda>y. y \<noteq> x \<and> P y) xs else x # drop_firsts P xs)"

fun promised_names :: "edit \<Rightarrow> tree \<Rightarrow> bytes list \<Rightarrow> bytes list" where
  "promised_names (EditRm recursive path) m ns = drop_firsts (\<lambda>k. k \<in> dom m \<and> rm_match path recursive k) ns"
| "promised_names (EditMv from to) m ns = sort (norm_path to # filter (\<lambda>k. k \<noteq> norm_path from) ns)"
| "promised_names (EditLn target path) m ns = sort (norm_path path # ns)"
| "promised_names (EditMkdir mode path) m ns = sort (norm_path path # ns)"
| "promised_names (EditAdd mode path source) m ns = sort (norm_path path # ns)"
| "promised_names (EditNote note) m ns = ns"

definition promised_listing ::
    "cpio_env \<Rightarrow> fs_hist \<Rightarrow> edit \<Rightarrow> tree \<times> bytes list \<Rightarrow> (tree \<times> bytes list) \<times> unit go" where
  "promised_listing env h e l =
     (case promised env h e (fst l) of
        (m, Inl x) \<Rightarrow> ((m, snd l), Inl x)
      | (m, Inr _) \<Rightarrow> ((m, promised_names e (fst l) (snd l)), Inr ()))"

lemma drop_firsts_remove1:
  "\<not> P x \<Longrightarrow> drop_firsts P (remove1 x ys) = drop_firsts (\<lambda>y. y = x \<or> P y) ys"
proof (induction ys arbitrary: P)
  case (Cons y ys)
  show ?case
  proof (cases "y = x")
    case True
    with Cons.prems have "(\<lambda>z. z \<noteq> x \<and> (z = x \<or> P z)) = P" by auto
    with True show ?thesis by simp
  next
    case False
    then have "(\<lambda>z. z = x \<or> (z \<noteq> y \<and> P z)) = (\<lambda>z. z \<noteq> y \<and> (z = x \<or> P z))" by auto
    with False Cons show ?thesis by auto
  qed
qed simp

lemma fold_remove1: "distinct xs \<Longrightarrow> fold remove1 xs ys = drop_firsts (\<lambda>y. y \<in> set xs) ys"
proof (induction xs arbitrary: ys)
  case Nil
  show ?case by (induction ys) simp_all
next
  case (Cons x xs)
  then show ?case using drop_firsts_remove1 [of "\<lambda>y. y \<in> set xs" x ys] by simp
qed

lemma drop_firsts_distinct: "distinct ys \<Longrightarrow> drop_firsts P ys = filter (\<lambda>y. \<not> P y) ys"
  by (induction ys arbitrary: P) (auto intro!: filter_cong)

lemma Keys_fold: "Keys (fold removeEntry ks c) = fold remove1 ks (Keys c)"
  by (induction ks arbitrary: c) (simp_all add: removeEntry_def)

lemma Keys_Rm_covered:
  assumes "ranges rng" "covered c"
  shows "Keys (Rm rng path recursive c) = drop_firsts (\<lambda>k. k \<in> dom (Entries c) \<and> rm_match path recursive k) (Keys c)"
  using rm_keys_spec [OF assms, of path recursive]
  by (auto simp: Rm_fold Keys_fold fold_remove1 intro: arg_cong2 [of _ _ _ _ drop_firsts])

lemma sort_snoc: "sort (xs @ [x]) = sort (x # xs)"
  by (rule properties_for_sort) (simp, rule sorted_sort)

lemma Keys_addEntry: "Keys (addEntry k e c) = sort (k # Keys c)"
  by (simp add: addEntry_def sort_snoc)

lemma exec_names:
  assumes "ranges (MapOrder env)" "covered (Archive s)" "spoken e"
  shows "Keys (Archive (fst (exec_command env (edit_text e) s))) =
    (case snd (exec_command env (edit_text e) s) of
       Inl _ \<Rightarrow> Keys (Archive s)
     | Inr _ \<Rightarrow> promised_names e (Entries (Archive s)) (Keys (Archive s)))"
proof (cases e)
  case (EditRm recursive path)
  with assms show ?thesis by (simp add: exec_edit Keys_Rm_covered)
next
  case (EditMv src dst)
  with assms show ?thesis by (simp add: exec_edit Mv_def Let_def Keys_addEntry)
next
  case (EditLn target path)
  with assms show ?thesis by (simp add: exec_edit Ln_def Keys_addEntry)
next
  case (EditMkdir mode path)
  with assms show ?thesis by (simp add: exec_edit Mkdir_def Keys_addEntry split: sum.split)
next
  case (EditAdd mode path source)
  with assms show ?thesis
    by (auto simp: exec_edit add_command_def Add_file_entry Keys_addEntry go_bind_def
        split: sum.splits option.splits if_splits)
next
  case (EditNote remark)
  with assms show ?thesis by (simp add: exec_edit)
qed

definition listing_of :: "cli_state \<Rightarrow> tree \<times> bytes list" where
  "listing_of s = (Entries (Archive s), Keys (Archive s))"

lemma exec_listing:
  assumes "ranges (MapOrder env)" "covered (Archive s)" "spoken e"
  shows "map_prod listing_of id (exec_command env (edit_text e) s) = promised_listing env (FsCalls s) e (listing_of s)"
proof -
  obtain t r where t: "exec_command env (edit_text e) s = (t, r)" by (cases "exec_command env (edit_text e) s")
  have "promised env (FsCalls s) e (Entries (Archive s)) = (Entries (Archive t), r)"
    using exec_promised [OF assms] t by simp
  moreover have "Keys (Archive t) = (case r of Inl _ \<Rightarrow> Keys (Archive s)
      | Inr _ \<Rightarrow> promised_names e (Entries (Archive s)) (Keys (Archive s)))"
    using exec_names [OF assms] t by simp
  ultimately show ?thesis by (simp add: t promised_listing_def listing_of_def split: sum.split)
qed

interpretation listings: simulation listing_of "\<lambda>s. covered (Archive s) \<and> FsCalls s = h"
  "\<lambda>e. exec_command env (edit_text e)" "promised_listing env h" "\<lambda>e. ranges (MapOrder env) \<and> spoken e" for env h
  by unfold_locales (auto simp add: covered_command exec_listing edit_quiet)

lemma edits_listing:
  "ranges (MapOrder env) \<Longrightarrow> covered (Archive s) \<Longrightarrow> list_all spoken es \<Longrightarrow>
   map_prod listing_of id (exec_all env (map edit_text es) s)
     = run_all (promised_listing env (FsCalls s)) es (listing_of s)"
  using listings.run_promise [where cs = es and env = env and s = s and h = "FsCalls s"]
  by (simp add: exec_all_run_all list_all_iff)

text \<open>
  Each bound name is listed once, as long as no command puts an entry over another one.
\<close>

definition exact_listing :: "tree \<times> bytes list \<Rightarrow> bool" where
  "exact_listing l \<longleftrightarrow> distinct (snd l) \<and> set (snd l) = dom (fst l)"

fun fresh :: "edit \<Rightarrow> tree \<Rightarrow> bool" where
  "fresh (EditMv from to) m = (norm_path to = norm_path from \<or> m (norm_path to) = None)"
| "fresh (EditLn target path) m = (m (norm_path path) = None)"
| "fresh (EditMkdir mode path) m = (m (norm_path path) = None)"
| "fresh (EditAdd mode path source) m = (m (norm_path path) = None)"
| "fresh e m = True"

fun fresh_run :: "cpio_env \<Rightarrow> fs_hist \<Rightarrow> edit list \<Rightarrow> tree \<Rightarrow> bool" where
  "fresh_run env h [] m = True"
| "fresh_run env h (e # es) m = (fresh e m \<and> fresh_run env h es (fst (promised env h e m)))"

lemma exact_listing_step:
  assumes "exact_listing l" "fresh e (fst l)"
  shows "exact_listing (fst (promised_listing env h e l))"
  using assms
  by (cases e) (auto simp: exact_listing_def promised_listing_def put_result_def drop_firsts_distinct
      set_insort_key distinct_insort split: sum.splits)

lemma exact_listing_run:
  "exact_listing l \<Longrightarrow> fresh_run env h es (fst l) \<Longrightarrow> exact_listing (fst (run_all (promised_listing env h) es l))"
proof (induction es arbitrary: l)
  case (Cons e es)
  obtain l' r where l: "promised_listing env h e l = (l', r)" by (cases "promised_listing env h e l")
  then have m: "fst l' = fst (promised env h e (fst l))"
    by (auto simp: promised_listing_def split: prod.splits sum.splits)
  have "exact_listing l'" using exact_listing_step [OF Cons.prems(1), of e env h] Cons.prems(2) l by simp
  with Cons.IH [of l'] Cons.prems(2) l m show ?case by (cases r) simp_all
qed simp

end
