(* ===== verification/Cpio_Undo.thy ===== *)
theory Cpio_Undo
  imports Cpio_Cli
begin

text \<open>
  The commands \<open>backup ORIGIN [-n]\<close> and \<open>restore\<close> of the interpreter, one after the other: what the
  archive then holds. \<open>Backup\<close> stores each file of the origin under its own name, so it is
  \<open>Backup\<close> that brings the files back, and \<open>Restore\<close> that takes the added ones away.
\<close>

section \<open>What the backup leaves for the restore\<close>

text \<open>The names that are neither \<open>.backup\<close> nor below it.\<close>

definition outside :: "bytes \<Rightarrow> bool" where
  "outside k \<longleftrightarrow> k \<noteq> backup_dir \<and> \<not> has_prefix k backup_prefix"

lemma norm_backup_dir: "norm_path backup_dir = backup_dir"
  by code_simp

lemma rm_match_backup: "rm_match backup_dir True k \<longleftrightarrow> \<not> outside k"
proof -
  have "backup_dir @ [slash] = backup_prefix" by code_simp
  then show ?thesis by (simp add: rm_match_def outside_def norm_backup_dir)
qed

lemma outside_rmlist: "\<not> outside rmlist_name"
  by (simp add: outside_def rmlist_prefix)

lemma rmlist_not_dir: "rmlist_name \<noteq> backup_dir"
  by code_simp

lemma not_prefix_backup_dir: "\<not> has_prefix backup_dir backup_prefix"
  by code_simp

lemma Rm_backup:
  assumes "ranges rng" "tidy c"
  shows "Keys (Rm rng backup_dir True c) = filter outside (Keys c)"
    and "Entries (Rm rng backup_dir True c) = (Entries c) |` {k. outside k}"
    and "outside k \<Longrightarrow> entry_at (Rm rng backup_dir True c) k = entry_at c k"
  using Keys_Rm [OF assms, of backup_dir True] Entries_Rm [OF assms(1) tidy_covered [OF assms(2)], of backup_dir True]
  by (simp_all add: rm_match_backup entry_at_def)

lemma split_recorded:
  "\<forall>n \<in> set ns. 0 \<notin> set n \<Longrightarrow> split_on 0 (concat (map (\<lambda>name. name @ [0 :: byte]) ns)) = ns @ [[]]"
  by (induction ns) (simp_all add: split_on_append)

lemma removal_data_count:
  "removal_data c = concat (replicate (count_list (Keys c) rmlist_name) (Data (entry_at c rmlist_name)))"
proof -
  have "concat (map (\<lambda>k. if k = rmlist_name then Data (entry_at c k) else []) ks)
      = concat (replicate (count_list ks rmlist_name) (Data (entry_at c rmlist_name)))" for ks
    by (induction ks) (simp_all)
  then show ?thesis by (simp add: removal_data_def)
qed

lemma Keys_store_all: "count_list (Keys (store_all b c)) k = count_list (Keys c) k + count_list (map fst b) k"
  by (simp add: store_all_def flip: count_mset)

lemma set_Keys_store_all: "set (Keys (store_all b c)) = set (Keys c) \<union> dom (map_of b)"
  by (simp add: store_all_def dom_map_of_conv_image_fst)

lemma count_list_distinct: "distinct xs \<Longrightarrow> count_list xs x = (if x \<in> set xs then 1 else 0)"
  by (induction xs) auto

text \<open>
  After a backup nothing can be restored, and the removal list is that of the backup.
\<close>

lemma nothing_restorable:
  assumes "\<forall>k \<in> set (Keys c). outside k" "\<forall>k \<in> dom (map_of b). k = rmlist_name \<or> k = backup_dir \<or> outside k"
  shows "\<forall>k \<in> set (Keys (store_all b c)). \<not> restorable k"
  using assms not_prefix_backup_dir unfolding set_Keys_store_all restorable_def outside_def by blast

lemma removal_after_backup:
  assumes "\<forall>k \<in> set (Keys c). outside k" "distinct (map fst b)"
  shows "removal_data (store_all b c) =
    (case map_of b rmlist_name of None \<Rightarrow> [] | Some e \<Rightarrow> Data e)"
proof -
  have "count_list (Keys c) rmlist_name = 0" using assms(1) outside_rmlist by (auto simp: count_list_0_iff)
  moreover have "rmlist_name \<in> fst ` set b \<longleftrightarrow> map_of b rmlist_name \<noteq> None"
    by (simp add: map_of_eq_None_iff)
  ultimately show ?thesis
    unfolding removal_data_count Keys_store_all count_list_distinct [OF assms(2)]
    by (auto simp: entry_at_def store_all_def)
qed

text \<open>
  The entries once both are done. \<open>added\<close> are the files that the origin does not have; their names are
  those that an archive of this tool holds.
\<close>

definition added_names :: "Cpio \<Rightarrow> Cpio \<Rightarrow> bytes set" where
  "added_names orig c = {k \<in> set (Keys c). outside k \<and> k \<notin> set (Keys orig)}"

definition undone :: "codecs \<Rightarrow> bool \<Rightarrow> Cpio \<Rightarrow> Cpio \<Rightarrow> bytes \<Rightarrow> CpioEntry option" where
  "undone cs skip orig c k =
     (if added_names orig c = {} \<or> k \<notin> set (Keys orig) then None
      else if k \<in> set (Keys c) \<and> Data (entry_at c k) = Data (entry_at orig k) then Entries c k
      else Some (backup_entry cs skip (entry_at orig k)))"

lemma Backup_Restore:
  assumes rng: "ranges rng" and tidy: "tidy orig" "tidy c"
    and load: "LoadFromFile files origin NewCpio = (orig, Inr ())"
    and sorted: "sorted_wrt (<) (Keys orig)" "sorted_wrt (<) (Keys c)"
    and names: "\<forall>k \<in> added_names orig c. norm_path k = k \<and> k \<noteq> [] \<and> 0 \<notin> set k"
    and out: "outside k"
  shows "snd (Backup cs rng files unmap_nil origin skip c) = Inr ()"
    and "snd (Restore cs spare (fst (Backup cs rng files unmap_nil origin skip c))) = Inr ()"
    and "Entries (fst (Restore cs spare (fst (Backup cs rng files unmap_nil origin skip c)))) k = undone cs skip orig c k"
proof -
  let ?o = "Rm rng backup_dir True orig" and ?c = "Rm rng backup_dir True c"
  note o = Rm_backup [OF rng tidy(1)] and c = Rm_backup [OF rng tidy(2)]
  have s: "sorted_wrt (<) (Keys ?o)" "sorted_wrt (<) (Keys ?c)"
    unfolding o c using sorted by (simp_all add: sorted_wrt_filter)
  let ?added = "filter (\<lambda>k. k \<notin> set (Keys ?o)) (Keys ?c)"
  have added: "set ?added = added_names orig c" by (auto simp: o c added_names_def)
  have Nil: "?added = [] \<longleftrightarrow> added_names orig c = {}" by (simp only: added [symmetric] set_empty)
  obtain b where B: "Backup cs rng files unmap_nil origin skip c = (store_all b ?c, Inr ())"
    and d: "distinct (map fst b)"
    and m: "map_of b = (\<lambda>k. if k = rmlist_name \<and> ?added \<noteq> [] then
            Some (zero_entry\<lparr>Mode := S_IFREG, Data := concat (map (\<lambda>name. name @ [0]) ?added)\<rparr>)
          else if k \<in> set (Keys ?o) \<and> (k \<in> set (Keys ?c) \<longrightarrow> Data (entry_at ?c k) \<noteq> Data (entry_at ?o k))
            then Some (backup_entry cs skip (entry_at ?o k))
          else if k = backup_dir then Some backup_dir_entry else None)"
    by (rule Backup_closed [OF load refl refl s, of cs unmap_nil skip]) (simp only: Let_def)
  show "snd (Backup cs rng files unmap_nil origin skip c) = Inr ()" by (simp add: B)
  have ok: "\<forall>k \<in> set (Keys ?c). outside k" "\<forall>k \<in> dom (map_of b). k = rmlist_name \<or> k = backup_dir \<or> outside k"
    by (auto simp: m c o split: if_splits)
  note none = nothing_restorable [OF ok]
  then have u: "unpacks cs spare (store_all b ?c) (\<lambda>_. undefined)" by (simp add: unpacks_def)
  show "snd (Restore cs spare (fst (Backup cs rng files unmap_nil origin skip c))) = Inr ()"
    by (simp add: B Restore_closed [OF u])
  have rm: "removal_data (store_all b ?c) = concat (map (\<lambda>name. name @ [0]) ?added)"
    unfolding removal_after_backup [OF ok(1) d] m by (auto simp: outside_rmlist rmlist_not_dir o c)
  have n: "\<forall>n \<in> set ?added. norm_path n = n \<and> n \<noteq> [] \<and> 0 \<notin> set n"
    using names unfolding added by simp
  show "Entries (fst (Restore cs spare (fst (Backup cs rng files unmap_nil origin skip c)))) k = undone cs skip orig c k"
  proof (cases "added_names orig c = {}")
    case True
    with Nil have "?added = []" by blast
    then have "removal_data (store_all b ?c) = []" unfolding rm by simp
    with none True show ?thesis by (simp add: B Restore_closed [OF u] undone_def)
  next
    case False
    with Nil have "?added \<noteq> []" by blast
    then have "removal_data (store_all b ?c) \<noteq> []" unfolding rm by (cases ?added) simp_all
    moreover have "set (split_on 0 (removal_data (store_all b ?c))) - {[]} = added_names orig c"
      unfolding rm added [symmetric] using n by (subst split_recorded) auto
    moreover have "norm_path ` insert backup_dir (added_names orig c) = insert backup_dir (added_names orig c)"
      using names by (auto simp: norm_backup_dir image_iff)
    moreover have "filter (\<lambda>k'. restorable k' \<and> P k') (Keys (store_all b ?c)) = []" for P
      using none by (simp add: filter_empty_conv)
    ultimately have "Entries (fst (Restore cs spare (store_all b ?c))) k =
        (if k \<in> insert backup_dir (added_names orig c) then None else (Entries ?c ++ map_of b) k)"
      unfolding Entries_Restore [OF u] by (simp add: Entries_store_all Let_def)
    moreover have "k \<noteq> backup_dir" "k \<noteq> rmlist_name" using out outside_rmlist by (auto simp: outside_def)
    moreover have "k \<notin> set (Keys c) \<Longrightarrow> Entries c k = None" using tidy(2) by (auto simp: tidy_def)
    ultimately show ?thesis
      using out False unfolding B fst_conv m map_add_def
      by (auto simp: undone_def added_names_def o c split: option.split)
  qed
qed

section \<open>The two commands\<close>

definition backup_words :: "bytes \<Rightarrow> bool \<Rightarrow> bytes" where
  "backup_words origin skip = str ''backup '' @ origin @ (if skip then str '' -n'' else [])"

lemma split_backup_words:
  assumes "32 \<notin> set origin"
  shows "split_on 32 (backup_words origin skip) =
    [str ''backup'', origin] @ (if skip then [str ''-n''] else [])"
proof -
  have b: "str ''backup '' = str ''backup'' @ [32]" "32 \<notin> set (str ''backup'')"
    "str '' -n'' = 32 # str ''-n''" "split_on 32 (str ''-n'') = [str ''-n'']" by code_simp+
  show ?thesis
    using assms b(2,4) unfolding backup_words_def b(1,3) by (simp add: split_on_append split_on_id)
qed

lemma exec_backup:
  assumes "32 \<notin> set origin"
  shows "exec_command env (backup_words origin skip) s = with_archive s
    (case Backup (Codecs env) (MapOrder env) (MappedFiles env (FsCalls s)) (UnmapNil env) origin skip (Archive s) of
       (c', r) \<Rightarrow> (c', fatal_err r))"
proof -
  have "\<not> has_prefix (backup_words origin skip) (str ''#'')"
    by (simp add: backup_words_def str_def)
  then show ?thesis
    by (simp add: exec_command_def Let_def split_backup_words [OF assms] str_eq_iff)
qed

lemma exec_restore:
  "exec_command env (str ''restore'') s = with_archive s
    (case Restore (Codecs env) (Spare env) (Archive s) of (c', r) \<Rightarrow> (c', drop_error r))"
proof -
  have "split_on 32 (str ''restore'') = [str ''restore'']" by code_simp
  then show ?thesis by (simp add: exec_command_def Let_def str_simps)
qed

lemma undone_contents:
  assumes "tidy orig" "tidy c" "added_names orig c \<noteq> {}"
  shows "map_option Data (undone cs True orig c k) = map_option Data (Entries orig k)"
  using assms by (auto simp: undone_def tidy_def backup_entry_def entry_at_def split: option.split)

text \<open>
  C7. The commands \<open>backup ORIGIN -n\<close> and \<open>restore\<close>, one after the other, on an archive to which files
  were added since the origin: outside of \<open>.backup\<close> the archive has again exactly the files of the
  origin with their contents, whatever was changed, removed or added. Without \<open>-n\<close> a changed or
  removed file comes back with the compressed bytes as its content. And when no file was
  added, every file is lost.
\<close>

theorem backup_then_restore:
  assumes "ranges (MapOrder env)" "LoadFromFile (MappedFiles env (FsCalls s)) origin NewCpio = (orig, Inr ())" "32 \<notin> set origin"
    and "tidy orig" "sorted_wrt (<) (Keys orig)" "tidy (Archive s)" "sorted_wrt (<) (Keys (Archive s))"
    and "\<forall>k \<in> added_names orig (Archive s). norm_path k = k \<and> k \<noteq> [] \<and> 0 \<notin> set k"
  shows "\<exists>c'. exec_all env [backup_words origin skip, str ''restore''] s = (s\<lparr>Archive := c'\<rparr>, Inr ())
    \<and> (\<forall>k. outside k \<longrightarrow> Entries c' k = undone (Codecs env) skip orig (Archive s) k)
    \<and> (added_names orig (Archive s) \<noteq> {} \<and> skip \<longrightarrow>
        (\<forall>k. outside k \<longrightarrow> map_option Data (Entries c' k) = map_option Data (Entries orig k)))
    \<and> (added_names orig (Archive s) = {} \<longrightarrow> (\<forall>k. outside k \<longrightarrow> Entries c' k = None))"
proof -
  let ?B = "Backup (Codecs env) (MapOrder env) (MappedFiles env (FsCalls s)) (UnmapNil env) origin skip (Archive s)"
  let ?R = "Restore (Codecs env) (Spare env) (fst ?B)"
  note br = Backup_Restore [OF assms(1,4,6,2,5,7,8)]
  have "outside []" by code_simp
  then have ok: "snd ?B = Inr ()" "snd ?R = Inr ()" by (rule br(1), rule br(2))
  have "exec_command env (backup_words origin skip) s = (s\<lparr>Archive := fst ?B\<rparr>, Inr ())"
    using ok(1) by (cases ?B) (simp add: exec_backup [OF assms(3)] with_archive_def)
  moreover have "exec_command env (str ''restore'') (s\<lparr>Archive := fst ?B\<rparr>) = (s\<lparr>Archive := fst ?R\<rparr>, Inr ())"
    using ok(2) by (cases ?R) (simp add: exec_restore with_archive_def drop_error_def)
  ultimately have run: "exec_all env [backup_words origin skip, str ''restore''] s = (s\<lparr>Archive := fst ?R\<rparr>, Inr ())"
    by simp
  have e: "outside k \<Longrightarrow> Entries (fst ?R) k = undone (Codecs env) skip orig (Archive s) k" for k
    by (rule br(3))
  show ?thesis
    using run e undone_contents [OF assms(4,6), of "Codecs env"]
    by (intro exI [of _ "fst ?R"] conjI impI allI) (simp_all add: undone_def)
qed

definition rooted_archive :: Cpio where
  "rooted_archive = addEntry (str ''sbin/su'') zero_entry changed_archive"

definition undo_env :: cpio_env where
  "undo_env = default_env\<lparr>MappedFiles := (\<lambda>_ _. Some (dump_bytes changed_origin))\<rparr>"

theorem backup_then_restore_witness:
  "\<exists>c'. exec_all undo_env [str ''backup orig -n'', str ''restore''] (init_state rooted_archive)
       = ((init_state rooted_archive)\<lparr>Archive := c'\<rparr>, Inr ())
     \<and> map_option Data (Entries c' (str ''init'')) = Some (str ''old'') \<and> Entries c' (str ''sbin/su'') = None"
proof -
  have ks: "Keys changed_origin = [str ''init'']" "Keys rooted_archive = [str ''init'', str ''sbin/su'']"
    "Entries changed_origin = [str ''init'' \<mapsto> zero_entry\<lparr>Mode := S_IFREG, Data := str ''old''\<rparr>]"
    "dom (Entries rooted_archive) = {str ''init'', str ''sbin/su''}"
    by (auto simp: changed_origin_def rooted_archive_def changed_archive_def addEntry_def NewCpio_def str_def)
  have t: "tidy changed_origin" "tidy rooted_archive"
    "sorted_wrt (<) (Keys changed_origin)" "sorted_wrt (<) (Keys rooted_archive)"
    unfolding tidy_def ks by (simp_all add: str_simps) (simp_all add: str_def)
  have o: "outside (str ''init'')" "outside (str ''sbin/su'')" "norm_path (str ''sbin/su'') = str ''sbin/su''"
    "0 \<notin> set (str ''sbin/su'')" "32 \<notin> set (str ''orig'')" by code_simp+
  have a: "added_names changed_origin rooted_archive = {str ''sbin/su''}"
    using o(2) by (auto simp: added_names_def ks str_simps)
  have r: "ranges (MapOrder undo_env)"
    using ranges_key_order by (simp add: undo_env_def default_env_def)
  have l: "LoadFromFile (MappedFiles undo_env (FsCalls (init_state rooted_archive))) (str ''orig'') NewCpio = (changed_origin, Inr ())"
    using load_changed_origin by (simp add: undo_env_def)
  have "\<forall>k \<in> added_names changed_origin (Archive (init_state rooted_archive)). norm_path k = k \<and> k \<noteq> [] \<and> 0 \<notin> set k"
    using o by (simp add: init_state_def a)
  from backup_then_restore [where s = "init_state rooted_archive" and skip = True, OF r l o(5) t(1,3) _ _ this] t(2,4)
  obtain c' where c: "exec_all undo_env [backup_words (str ''orig'') True, str ''restore''] (init_state rooted_archive)
       = ((init_state rooted_archive)\<lparr>Archive := c'\<rparr>, Inr ())"
    "\<forall>k. outside k \<longrightarrow> map_option Data (Entries c' k) = map_option Data (Entries changed_origin k)"
    by (auto simp: init_state_def a)
  have w: "backup_words (str ''orig'') True = str ''backup orig -n''"
    by (simp add: backup_words_def str_def)
  have "map_option Data (Entries c' (str ''init'')) = Some (str ''old'')"
    "map_option Data (Entries c' (str ''sbin/su'')) = None"
    using c(2) o(1,2) by (simp_all add: ks str_simps)
  with c(1) [unfolded w] show ?thesis by auto
qed

end
