(* ===== verification/Hex_Patch.thy ===== *)
theory Hex_Patch
  imports Go_Strings
begin

text \<open>
  \<open>HexPatch\<close> of \<open>patch.go\<close>: two patterns in hexadecimal, and one pass over the mapped file
  that overwrites each occurrence of the first by the second, in place. The mapping is
  shared with the file, so every function returns the bytes as they are when it stops,
  also when it panics. How a file is mapped (\<open>mmap.Map\<close>) is a parameter.
\<close>

section \<open>The program\<close>

text \<open>\<open>hex.DecodeString\<close>; the caller only looks at whether it fails.\<close>

definition hex_val :: "byte \<Rightarrow> nat option" where
  "hex_val b = (case digit_val b of None \<Rightarrow> None | Some d \<Rightarrow> if d < 16 then Some d else None)"

fun DecodeString :: "bytes \<Rightarrow> bytes option" where
  "DecodeString [] = Some []"
| "DecodeString [a] = None"
| "DecodeString (a # b # s) =
     (case (hex_val a, hex_val b, DecodeString s) of
        (Some x, Some y, Some r) \<Rightarrow> Some (of_nat (16 * x + y) # r)
      | _ \<Rightarrow> None)"

text \<open>The inner loop compares \<open>from_b[j]\<close> with \<open>m[i+j]\<close>; the index may leave the map.\<close>

fun match_loop :: "bytes \<Rightarrow> nat \<Rightarrow> bytes \<Rightarrow> bool go" where
  "match_loop m i [] = Inr True"
| "match_loop m i (f # fs) =
     go_bind (go_index m i) (\<lambda>b. if f \<noteq> b then Inr False else match_loop m (i + 1) fs)"

definition hex_match :: "bytes \<Rightarrow> bytes \<Rightarrow> nat \<Rightarrow> bool go" where
  "hex_match from_b m i =
     go_bind (go_index from_b 0) (\<lambda>f. go_bind (go_index m i) (\<lambda>b.
       if f = b then match_loop m i from_b else Inr False))"

text \<open>\<open>copy(m[i:], to_b)\<close>.\<close>

definition copy_at :: "bytes \<Rightarrow> nat \<Rightarrow> bytes \<Rightarrow> bytes" where
  "copy_at m i to_b = take i m @ take (length m - i) to_b @ drop (i + length to_b) m"

fun hex_loop :: "bytes \<Rightarrow> bytes \<Rightarrow> nat \<Rightarrow> nat \<Rightarrow> bytes \<Rightarrow> bool \<Rightarrow> bytes \<times> bool go" where
  "hex_loop from_b to_b 0 i m patched = (m, Inr patched)"
| "hex_loop from_b to_b (Suc n) i m patched =
     (case hex_match from_b m i of
        Inl e \<Rightarrow> (m, Inl e)
      | Inr b \<Rightarrow>
          if b then hex_loop from_b to_b n (i + 1) (copy_at m i to_b) True
          else hex_loop from_b to_b n (i + 1) m patched)"

definition HexPatch :: "(bytes \<Rightarrow> bytes option) \<Rightarrow> bytes option \<Rightarrow> bytes \<Rightarrow> bytes \<Rightarrow> bytes option \<times> bool go" where
  "HexPatch mmap file from to_s =
     (case file of
        None \<Rightarrow> (None, Inl Fatal)
      | Some content \<Rightarrow>
          (case (DecodeString from, DecodeString to_s) of
             (Some from_b, Some to_b) \<Rightarrow>
               (case mmap content of
                  None \<Rightarrow> (file, Inl Fatal)
                | Some m \<Rightarrow>
                    (case hex_loop from_b to_b (length content) 0 m False of
                       (m', r) \<Rightarrow> (Some m', r)))
           | _ \<Rightarrow> (file, Inl Fatal)))"

section \<open>The loop against a rewriting of the list\<close>

definition overlay :: "bytes \<Rightarrow> bytes \<Rightarrow> bytes" where
  "overlay to_b s = take (length s) to_b @ drop (length to_b) s"

lemma length_overlay [simp]: "length (overlay to_b s) = length s"
  by (simp add: overlay_def)

lemma copy_at_append: "i = length pre \<Longrightarrow> copy_at (pre @ s) i to_b = pre @ overlay to_b s"
  by (simp add: copy_at_def overlay_def)

definition cons_result :: "bool \<Rightarrow> byte \<Rightarrow> bytes \<times> bool go \<Rightarrow> bytes \<times> bool go" where
  "cons_result hit b r = (b # fst r, go_bind (snd r) (\<lambda>p. Inr (p \<or> hit)))"

function hex_scan :: "bytes \<Rightarrow> bytes \<Rightarrow> bytes \<Rightarrow> bytes \<times> bool go" where
  "hex_scan from_b to_b [] = ([], Inr False)"
| "hex_scan from_b to_b (b # bs) =
     (if has_prefix (b # bs) from_b
      then (let s = overlay to_b (b # bs) in cons_result True (hd s) (hex_scan from_b to_b (tl s)))
      else if has_prefix from_b (b # bs) then (b # bs, Inl (Panic IndexOutOfRange))
      else cons_result False b (hex_scan from_b to_b bs))"
  by pat_completeness auto
termination
  by (relation "measure (\<lambda>(f, t, s). length s)") simp_all

lemma match_loop_spec:
  "i = length pre \<Longrightarrow> match_loop (pre @ s) i f =
     (if has_prefix s f then Inr True
      else if has_prefix f s then Inl (Panic IndexOutOfRange) else Inr False)"
proof (induction f arbitrary: pre s i)
  case (Cons x f)
  show ?case
  proof (cases s)
    case Nil
    with Cons.prems show ?thesis by (simp add: go_index_def)
  next
    case (Cons c t)
    have "match_loop ((pre @ [c]) @ t) (Suc i) f =
        (if has_prefix t f then Inr True
         else if has_prefix f t then Inl (Panic IndexOutOfRange) else Inr False)"
      by (rule Cons.IH) (simp add: Cons.prems)
    then have "match_loop (pre @ c # t) (Suc i) f =
        (if has_prefix t f then Inr True
         else if has_prefix f t then Inl (Panic IndexOutOfRange) else Inr False)"
      by simp
    with Cons Cons.prems show ?thesis by (simp add: go_index_def)
  qed
qed simp

lemma hex_match_spec:
  assumes "f \<noteq> []" "i = length pre" "s \<noteq> []"
  shows "hex_match f (pre @ s) i =
     (if has_prefix s f then Inr True
      else if has_prefix f s then Inl (Panic IndexOutOfRange) else Inr False)"
proof -
  obtain x f' where f: "f = x # f'" using assms(1) by (cases f) auto
  obtain c t where s: "s = c # t" using assms(3) by (cases s) auto
  have "hex_match f (pre @ s) i = (if x = c then match_loop (pre @ s) i f else Inr False)"
    by (simp add: hex_match_def go_index_def f s assms(2))
  moreover have "x \<noteq> c \<Longrightarrow> \<not> has_prefix s f \<and> \<not> has_prefix f s" by (simp add: f s)
  ultimately show ?thesis using match_loop_spec [OF assms(2), of s f] by auto
qed

lemma hex_loop_scan:
  "f \<noteq> [] \<Longrightarrow> i = length pre \<Longrightarrow> n = length s \<Longrightarrow>
   hex_loop f t n i (pre @ s) patched =
    (pre @ fst (hex_scan f t s), go_bind (snd (hex_scan f t s)) (\<lambda>p. Inr (p \<or> patched)))"
proof (induction f t s arbitrary: pre i n patched rule: hex_scan.induct)
  case (2 f t b bs)
  from 2(4) have i: "Suc i = length (pre @ [c])" for c by simp
  from 2(5) have n: "n = Suc (length bs)" by simp
  have m: "hex_match f (pre @ b # bs) i =
     (if has_prefix (b # bs) f then Inr True
      else if has_prefix f (b # bs) then Inl (Panic IndexOutOfRange) else Inr False)"
    by (rule hex_match_spec [OF 2(3,4)]) simp
  consider "has_prefix (b # bs) f" | "\<not> has_prefix (b # bs) f" "has_prefix f (b # bs)"
    | "\<not> has_prefix (b # bs) f" "\<not> has_prefix f (b # bs)" by blast
  then show ?case
  proof cases
    case 1
    obtain c s where o: "overlay t (b # bs) = c # s"
      using length_overlay [of t "b # bs"] by (cases "overlay t (b # bs)") auto
    have len: "length bs = length s" using length_overlay [of t "b # bs"] o by simp
    note IH = 2(1) [OF 1 refl 2(3) i, of "length bs" c True, unfolded o, simplified len]
    show ?thesis
      using IH by (cases "snd (hex_scan f t s)")
        (simp_all add: n m 1 copy_at_append [OF 2(4)] o cons_result_def Let_def len)
  next
    case 2
    then show ?thesis by (simp add: n m)
  next
    case 3
    note IH = "2.IH"(2) [OF 3 \<open>f \<noteq> []\<close> i refl, of b patched]
    with 3 show ?thesis by (cases "snd (hex_scan f t bs)") (simp_all add: n m cons_result_def)
  qed
qed simp

text \<open>
  C8. On a mapped file and with a pattern that is not empty, the loop computes the recursive
  rewriting \<open>hex_scan\<close> of the file: the bytes it leaves and how it ends.
\<close>

theorem HexPatch_scan:
  assumes "DecodeString from = Some f" "f \<noteq> []" "DecodeString to_s = Some t" "mmap content = Some content"
  shows "HexPatch mmap (Some content) from to_s =
    (Some (fst (hex_scan f t content)), snd (hex_scan f t content))"
  using assms hex_loop_scan [OF assms(2), of 0 "[]" "length content" content t False]
  by (cases "snd (hex_scan f t content)") (simp_all add: HexPatch_def)

definition mmap_file :: "bytes \<Rightarrow> bytes option" where
  "mmap_file content = (if content = [] then None else Some content)"

theorem HexPatch_scan_witness:
  "HexPatch mmap_file (Some (str ''12345678901234567890'')) (str ''31323334'') (str ''35363738'')
     = (Some (str ''56785678905678567890''), Inr True)"
proof -
  have d: "DecodeString (str ''31323334'') = Some (str ''1234'')"
    "DecodeString (str ''35363738'') = Some (str ''5678'')"
    "mmap_file (str ''12345678901234567890'') = Some (str ''12345678901234567890'')"
    "hex_scan (str ''1234'') (str ''5678'') (str ''12345678901234567890'') = (str ''56785678905678567890'', Inr True)"
    by code_simp+
  show ?thesis using HexPatch_scan [where mmap = mmap_file, OF d(1) _ d(2,3)] by (simp add: d(4))
qed

section \<open>What the rewriting does\<close>

lemma length_hex_scan: "length (fst (hex_scan f t s)) = length s"
  by (induction f t s rule: hex_scan.induct) (auto simp: cons_result_def Let_def)

lemma hex_scan_absent:
  "f \<noteq> [] \<Longrightarrow> index_of s f = None \<Longrightarrow>
   hex_scan f t s =
     (s, if \<exists>i < length s. has_prefix f (drop i s) then Inl (Panic IndexOutOfRange) else Inr False)"
proof (induction f t s rule: hex_scan.induct)
  case (2 f t b bs)
  have abs: "\<not> has_prefix (b # bs) f" "index_of bs f = None"
    using 2(4) by (auto split: if_splits)
  have split: "(\<exists>i < length (b # bs). has_prefix f (drop i (b # bs)))
      \<longleftrightarrow> has_prefix f (b # bs) \<or> (\<exists>i < length bs. has_prefix f (drop i bs))"
    using less_Suc_eq_0_disj by auto
  show ?case
  proof (cases "has_prefix f (b # bs)")
    case True
    with abs split show ?thesis by simp
  next
    case False
    from 2(2) [OF abs(1) False 2(3) abs(2)] split abs False show ?thesis
      by (simp add: cons_result_def)
  qed
qed simp

lemma overlay_hd: "t \<noteq> [] \<Longrightarrow> s \<noteq> [] \<Longrightarrow> overlay t s \<noteq> [] \<and> hd (overlay t s) = hd t"
  by (cases t; cases s) (simp_all add: overlay_def)

lemma hex_scan_present:
  "f \<noteq> [] \<Longrightarrow> index_of s f = Some i \<Longrightarrow> hex_scan f t s = (m, r) \<Longrightarrow>
   take i m = take i s \<and> (t \<noteq> [] \<longrightarrow> m ! i = hd t) \<and> (\<forall>p. r = Inr p \<longrightarrow> p)"
proof (induction f t s arbitrary: i m r rule: hex_scan.induct)
  case (2 f t b bs)
  show ?case
  proof (cases "has_prefix (b # bs) f")
    case True
    with 2(4,5) have "i = 0" "m = hd (overlay t (b # bs)) # fst (hex_scan f t (tl (overlay t (b # bs))))"
      "r = go_bind (snd (hex_scan f t (tl (overlay t (b # bs))))) (\<lambda>p. Inr True)"
      by (simp_all add: cons_result_def Let_def)
    then show ?thesis using overlay_hd [of t "b # bs"] by (auto simp: go_bind_Inr_iff)
  next
    case False
    then obtain j where j: "index_of bs f = Some j" "i = Suc j" using 2(4) by auto
    from index_of_Some_prefix [OF j(1)] have "length f \<le> length bs"
      using has_prefix_length by fastforce
    then have np: "\<not> has_prefix f (b # bs)" by (auto dest: has_prefix_length)
    with 2(5) False have m: "m = b # fst (hex_scan f t bs)"
      and r: "r = go_bind (snd (hex_scan f t bs)) Inr"
      by (simp_all add: cons_result_def)
    have "take j (fst (hex_scan f t bs)) = take j bs \<and> (t \<noteq> [] \<longrightarrow> fst (hex_scan f t bs) ! j = hd t)
        \<and> (\<forall>p. snd (hex_scan f t bs) = Inr p \<longrightarrow> p)"
      by (rule 2(2) [OF False np 2(3) j(1)]) simp
    then show ?thesis by (auto simp: m r j(2) go_bind_Inr_iff)
  qed
qed simp

text \<open>
  C22. When \<open>HexPatch\<close> returns, the file has its old length, the result tells whether the
  pattern occurs in the file, a file without an occurrence is unchanged, and otherwise the
  bytes before the first occurrence are unchanged and the replacement starts there.
\<close>

theorem HexPatch_first:
  assumes "DecodeString from = Some f" "f \<noteq> []" "DecodeString to_s = Some t" "mmap content = Some content"
    and "HexPatch mmap (Some content) from to_s = (Some m, Inr p)"
  shows "length m = length content \<and> (p \<longleftrightarrow> index_of content f \<noteq> None) \<and> (\<not> p \<longrightarrow> m = content)
    \<and> (\<forall>i. index_of content f = Some i \<longrightarrow> take i m = take i content \<and> (t \<noteq> [] \<longrightarrow> m ! i = hd t))"
proof -
  have "hex_loop f t (length content) 0 content False = (m, Inr p)"
    using assms by (simp add: HexPatch_def split: prod.splits)
  then have r: "hex_scan f t content = (m, Inr p)"
    using hex_loop_scan [OF assms(2), of 0 "[]" "length content" content t False]
    by (cases "hex_scan f t content"; cases "snd (hex_scan f t content)") auto
  have len: "length m = length content" using length_hex_scan [of f t content] r by simp
  show ?thesis
  proof (cases "index_of content f")
    case None
    with hex_scan_absent [OF assms(2) None, of t] r len show ?thesis by (auto split: if_splits)
  next
    case (Some i)
    from hex_scan_present [OF assms(2) Some r] len Some show ?thesis by simp
  qed
qed

theorem HexPatch_first_witness:
  "take 5 (str ''0000012341234'') = take 5 (str ''00000abcd1234'') \<and> str ''0000012341234'' ! 5 = hd (str ''1234'')"
proof -
  have d: "DecodeString (str ''61626364'') = Some (str ''abcd'')" "str ''abcd'' \<noteq> []"
    "DecodeString (str ''31323334'') = Some (str ''1234'')"
    "mmap_file (str ''00000abcd1234'') = Some (str ''00000abcd1234'')"
    "HexPatch mmap_file (Some (str ''00000abcd1234'')) (str ''61626364'') (str ''31323334'')
       = (Some (str ''0000012341234''), Inr True)"
    by code_simp+
  have i: "index_of (str ''00000abcd1234'') (str ''abcd'') = Some 5" by code_simp
  show ?thesis using HexPatch_first [where mmap = mmap_file, OF d] i by simp
qed

text \<open>
  C39. In a file that does not hold the pattern, \<open>HexPatch\<close> panics exactly when the file ends
  with a proper prefix of the pattern: the comparison runs off the end of the map.
\<close>

theorem HexPatch_tail_panics:
  assumes "DecodeString from = Some f" "f \<noteq> []" "DecodeString to_s = Some t" "mmap content = Some content"
    and "index_of content f = None"
  shows "is_panic (snd (HexPatch mmap (Some content) from to_s))
    \<longleftrightarrow> (\<exists>i < length content. has_prefix f (drop i content))"
  using assms hex_loop_scan [OF assms(2), of 0 "[]" "length content" content t False]
    hex_scan_absent [OF assms(2,5), of t]
  by (simp add: HexPatch_def)

theorem HexPatch_tail_panics_witness:
  "is_panic (snd (HexPatch mmap_file (Some (str ''xyz12'')) (str ''31323334'') (str ''35363738'')))"
proof -
  have d: "DecodeString (str ''31323334'') = Some (str ''1234'')" "str ''1234'' \<noteq> []"
    "DecodeString (str ''35363738'') = Some (str ''5678'')"
    "mmap_file (str ''xyz12'') = Some (str ''xyz12'')" "index_of (str ''xyz12'') (str ''1234'') = None"
    by code_simp+
  have "3 < length (str ''xyz12'') \<and> has_prefix (str ''1234'') (drop 3 (str ''xyz12''))" by code_simp
  then show ?thesis using HexPatch_tail_panics [where mmap = mmap_file, OF d] by blast
qed

lemma HexPatch_empty_pattern:
  "mmap content = Some content \<Longrightarrow> content \<noteq> [] \<Longrightarrow> DecodeString to_s = Some t \<Longrightarrow>
   is_panic (snd (HexPatch mmap (Some content) [] to_s))"
  by (cases content) (simp_all add: HexPatch_def hex_match_def go_index_def)

end
