(* ===== verification/Layout.thy ===== *)
theory Layout
  imports Go_Binary
begin

text \<open>
  Layouts: how \<open>encoding/binary\<close> reads and writes a structure of fixed size. A layout bundles
  the writer, the reader, the width (\<open>binary.Size\<close>) and the values that fit. Layouts of
  structures are built from those of their fields, in order and without padding, and the
  \<open>codec\<close> laws carry over.
\<close>

record 'a layout =
  lput :: "'a \<Rightarrow> bytes"
  lget :: "bytes \<Rightarrow> ('a \<times> bytes) option"
  lwidth :: nat
  lok :: "'a \<Rightarrow> bool"

definition lawful :: "'a layout \<Rightarrow> bool" where
  "lawful l \<longleftrightarrow> codec (lput l) (lget l) (lwidth l) (lok l)"

definition U32 :: "u32 layout" where
  "U32 = \<lparr>lput = put_u32, lget = get_u32, lwidth = 4, lok = (\<lambda>_. True)\<rparr>"

definition U64 :: "u64 layout" where
  "U64 = \<lparr>lput = put_u64, lget = get_u64, lwidth = 8, lok = (\<lambda>_. True)\<rparr>"

definition U32BE :: "u32 layout" where
  "U32BE = \<lparr>lput = word_be 4, lget = get_be 4, lwidth = 4, lok = (\<lambda>_. True)\<rparr>"

definition Bytes :: "nat \<Rightarrow> bytes layout" where
  "Bytes n = \<lparr>lput = (\<lambda>b. b), lget = get_bytes n, lwidth = n, lok = (\<lambda>b. length b = n)\<rparr>"

definition seq :: "'a layout \<Rightarrow> 'b layout \<Rightarrow> ('a \<times> 'b) layout" where
  "seq a b =
     \<lparr>lput = (\<lambda>(x, y). lput a x @ lput b y),
      lget = (\<lambda>bs. do { (x, r) \<leftarrow> lget a bs; (y, r') \<leftarrow> lget b r; Some ((x, y), r') }),
      lwidth = lwidth a + lwidth b,
      lok = (\<lambda>(x, y). lok a x \<and> lok b y)\<rparr>"

fun get_array :: "nat \<Rightarrow> (bytes \<Rightarrow> ('a \<times> bytes) option) \<Rightarrow> bytes \<Rightarrow> ('a list \<times> bytes) option" where
  "get_array 0 d bs = Some ([], bs)"
| "get_array (Suc n) d bs = do { (x, r) \<leftarrow> d bs; (xs, r') \<leftarrow> get_array n d r; Some (x # xs, r') }"

definition Array :: "nat \<Rightarrow> 'a layout \<Rightarrow> 'a list layout" where
  "Array n a =
     \<lparr>lput = (\<lambda>xs. concat (map (lput a) xs)), lget = get_array n (lget a), lwidth = n * lwidth a,
      lok = (\<lambda>xs. length xs = n \<and> list_all (lok a) xs)\<rparr>"

text \<open>A structure: the tuple of its fields under a constructor and its inverse.\<close>

definition struct :: "('a \<Rightarrow> 'b) \<Rightarrow> ('b \<Rightarrow> 'a) \<Rightarrow> 'a layout \<Rightarrow> 'b layout" where
  "struct mk un a =
     \<lparr>lput = (\<lambda>h. lput a (un h)), lget = (\<lambda>bs. map_option (\<lambda>(x, r). (mk x, r)) (lget a bs)),
      lwidth = lwidth a, lok = (\<lambda>h. lok a (un h))\<rparr>"

section \<open>The laws carry over\<close>

lemma lawful_enc: "lawful l \<Longrightarrow> lok l x \<Longrightarrow> lget l (lput l x @ rest) = Some (x, rest)"
  unfolding lawful_def by (rule codec.dec_enc)

lemma lawful_sound: "lawful l \<Longrightarrow> lget l bs = Some (x, rest) \<Longrightarrow> lok l x \<and> bs = lput l x @ rest"
  unfolding lawful_def by (rule codec.dec_sound)

lemma lawful_width: "lawful l \<Longrightarrow> lok l x \<Longrightarrow> length (lput l x) = lwidth l"
  unfolding lawful_def by (rule codec.enc_width)

lemma lawful_total: "lawful l \<Longrightarrow> lwidth l \<le> length bs \<Longrightarrow> \<exists>r. lget l bs = Some r"
  unfolding lawful_def by (rule codec.dec_total)

lemma lawful_rest: "lawful l \<Longrightarrow> lget l bs = Some (x, rest) \<Longrightarrow> length bs = lwidth l + length rest"
  unfolding lawful_def by (rule codec.dec_consumes)

lemma lawfulI:
  assumes "\<And>x rest. lok l x \<Longrightarrow> lget l (lput l x @ rest) = Some (x, rest)"
    and "\<And>bs x rest. lget l bs = Some (x, rest) \<Longrightarrow> lok l x \<and> bs = lput l x @ rest"
    and "\<And>x. lok l x \<Longrightarrow> length (lput l x) = lwidth l"
    and "\<And>bs. lwidth l \<le> length bs \<Longrightarrow> \<exists>r. lget l bs = Some r"
  shows "lawful l"
  unfolding lawful_def by unfold_locales (use assms in blast)+

named_theorems lawful_intros "layouts that satisfy the codec laws"

lemma lawful_U32 [lawful_intros]: "lawful U32"
  using codec_get_le [of 4, where 'a = 32] by (simp add: lawful_def U32_def)

lemma lawful_U64 [lawful_intros]: "lawful U64"
  using codec_get_le [of 8, where 'a = 64] by (simp add: lawful_def U64_def)

lemma lawful_U32BE [lawful_intros]: "lawful U32BE"
  using codec_get_be [of 4, where 'a = 32] by (simp add: lawful_def U32BE_def)

lemma lawful_Bytes [lawful_intros]: "lawful (Bytes n)"
  using codec_get_bytes by (simp add: lawful_def Bytes_def)

lemma lawful_seq [lawful_intros]:
  assumes a: "lawful a" and b: "lawful b"
  shows "lawful (seq a b)"
proof (rule lawfulI)
  fix p rest assume "lok (seq a b) p"
  then show "lget (seq a b) (lput (seq a b) p @ rest) = Some (p, rest)"
    by (cases p) (simp add: seq_def lawful_enc [OF a] lawful_enc [OF b])
next
  fix bs p rest assume "lget (seq a b) bs = Some (p, rest)"
  then show "lok (seq a b) p \<and> bs = lput (seq a b) p @ rest"
    by (auto simp: seq_def bind_eq_Some_conv dest!: lawful_sound [OF a] lawful_sound [OF b])
next
  fix p assume "lok (seq a b) p"
  then show "length (lput (seq a b) p) = lwidth (seq a b)"
    by (cases p) (simp add: seq_def lawful_width [OF a] lawful_width [OF b])
next
  fix bs :: bytes assume len: "lwidth (seq a b) \<le> length bs"
  then obtain x r where x: "lget a bs = Some (x, r)"
    using lawful_total [OF a, of bs] by (auto simp: seq_def)
  with len lawful_rest [OF a x] obtain y r' where "lget b r = Some (y, r')"
    using lawful_total [OF b, of r] by (auto simp: seq_def)
  with x show "\<exists>r. lget (seq a b) bs = Some r" by (simp add: seq_def)
qed

lemma lawful_Array [lawful_intros]:
  assumes a: "lawful a"
  shows "lawful (Array n a)"
proof (rule lawfulI)
  fix xs rest assume "lok (Array n a) xs"
  then show "lget (Array n a) (lput (Array n a) xs @ rest) = Some (xs, rest)"
    by (induction n arbitrary: xs) (auto simp: Array_def length_Suc_conv lawful_enc [OF a])
next
  fix bs xs rest assume "lget (Array n a) bs = Some (xs, rest)"
  then show "lok (Array n a) xs \<and> bs = lput (Array n a) xs @ rest"
    by (induction n arbitrary: bs xs)
      (fastforce simp: Array_def bind_eq_Some_conv dest: lawful_sound [OF a])+
next
  fix xs assume "lok (Array n a) xs"
  then show "length (lput (Array n a) xs) = lwidth (Array n a)"
    by (induction n arbitrary: xs) (auto simp: Array_def length_Suc_conv lawful_width [OF a])
next
  fix bs :: bytes assume "lwidth (Array n a) \<le> length bs"
  then show "\<exists>r. lget (Array n a) bs = Some r"
  proof (induction n arbitrary: bs)
    case (Suc n)
    then obtain x r where x: "lget a bs = Some (x, r)"
      using lawful_total [OF a, of bs] by (auto simp: Array_def)
    with Suc.prems lawful_rest [OF a x] obtain r' where "lget (Array n a) r = Some r'"
      using Suc.IH [of r] by (auto simp: Array_def)
    with x show ?case by (cases r') (simp add: Array_def)
  qed (simp add: Array_def)
qed

lemma lawful_struct:
  assumes a: "lawful a" and "\<And>x. un (mk x) = x" "\<And>h. mk (un h) = h"
  shows "lawful (struct mk un a)"
proof (rule lawfulI)
  fix h rest assume "lok (struct mk un a) h"
  then show "lget (struct mk un a) (lput (struct mk un a) h @ rest) = Some (h, rest)"
    by (simp add: struct_def lawful_enc [OF a] assms(3))
next
  fix bs h rest assume "lget (struct mk un a) bs = Some (h, rest)"
  then show "lok (struct mk un a) h \<and> bs = lput (struct mk un a) h @ rest"
    by (auto simp: struct_def assms(2) dest!: lawful_sound [OF a])
next
  fix h assume "lok (struct mk un a) h"
  then show "length (lput (struct mk un a) h) = lwidth (struct mk un a)"
    by (simp add: struct_def lawful_width [OF a])
next
  fix bs :: bytes assume "lwidth (struct mk un a) \<le> length bs"
  then show "\<exists>r. lget (struct mk un a) bs = Some r"
    using lawful_total [OF a, of bs] by (auto simp: struct_def)
qed

named_theorems layout_sizes "widths of the layouts of structures"

lemmas layout_widths = U32_def U64_def U32BE_def Bytes_def seq_def Array_def struct_def

text \<open>
  \<open>binary.Read\<close> from a reader over the bytes: \<open>None\<close> when there are too few, and then nothing
  is stored.
\<close>

definition binary_Read :: "'a layout \<Rightarrow> bytes \<Rightarrow> 'a option" where
  "binary_Read l bs = map_option fst (lget l bs)"

lemma binary_Read_None_iff: "lawful l \<Longrightarrow> binary_Read l bs = None \<longleftrightarrow> length bs < lwidth l"
  using codec.dec_None_iff [of "lput l" "lget l" "lwidth l" "lok l" bs]
  by (simp add: lawful_def binary_Read_def)

lemma binary_Read_put: "lawful l \<Longrightarrow> lok l x \<Longrightarrow> binary_Read l (lput l x @ rest) = Some x"
  by (simp add: binary_Read_def lawful_enc)

lemma binary_Read_prefix:
  "lawful l \<Longrightarrow> lwidth l \<le> length bs \<Longrightarrow> binary_Read l (bs @ rest) = binary_Read l bs"
  using codec.dec_prefix_only [of "lput l" "lget l" "lwidth l" "lok l" bs rest]
  by (simp add: lawful_def binary_Read_def)

end
