(* ===== verification/Boot_Headers.thy ===== *)
theory Boot_Headers
  imports Layout Align
begin

text \<open>
  The header structures of \<open>bootimg.go\<close> and the \<open>Init\<close> methods and accessors of the header
  views over them. Each structure is a record and its layout; the sizes are those that
  \<open>bootimg_test.go\<close> asks for. Embedded structures are nested records.
\<close>

section \<open>Structures\<close>

record MtkHdr =
  Mtk_Magic :: u32
  Mtk_Size :: u32
  Mtk_Name :: bytes
  Mtk_Padding :: bytes

definition MtkHdr_layout :: "MtkHdr layout" where
  "MtkHdr_layout = struct
     (\<lambda>(a, b, c, d).
       \<lparr>Mtk_Magic = a, Mtk_Size = b, Mtk_Name = c, Mtk_Padding = d\<rparr>)
     (\<lambda>h. (Mtk_Magic h, Mtk_Size h, Mtk_Name h, Mtk_Padding h))
     (seq U32 (seq U32 (seq (Bytes 32) (Bytes 472))))"

lemma lawful_MtkHdr [lawful_intros]: "lawful MtkHdr_layout"
  unfolding MtkHdr_layout_def by (rule lawful_struct, intro lawful_intros) auto

lemma width_MtkHdr [layout_sizes]: "lwidth MtkHdr_layout = 512"
  by (simp add: MtkHdr_layout_def layout_widths layout_sizes)

record DhtbHdr =
  Dhtb_Magic :: bytes
  Dhtb_Checksum :: bytes
  Dhtb_Size :: u32
  Dhtb_Padding :: bytes

definition DhtbHdr_layout :: "DhtbHdr layout" where
  "DhtbHdr_layout = struct
     (\<lambda>(a, b, c, d).
       \<lparr>Dhtb_Magic = a, Dhtb_Checksum = b, Dhtb_Size = c, Dhtb_Padding = d\<rparr>)
     (\<lambda>h. (Dhtb_Magic h, Dhtb_Checksum h, Dhtb_Size h, Dhtb_Padding h))
     (seq (Bytes 8) (seq (Bytes 40) (seq U32 (Bytes 460))))"

lemma lawful_DhtbHdr [lawful_intros]: "lawful DhtbHdr_layout"
  unfolding DhtbHdr_layout_def by (rule lawful_struct, intro lawful_intros) auto

lemma width_DhtbHdr [layout_sizes]: "lwidth DhtbHdr_layout = 512"
  by (simp add: DhtbHdr_layout_def layout_widths layout_sizes)

record BlobHdr =
  Blob_SecureMagic :: bytes
  Blob_Datalen :: u32
  Blob_Signature :: u32
  Blob_Magic :: bytes
  Blob_HdrVersion :: u32
  Blob_HdrSize :: u32
  Blob_PartOffset :: u32
  Blob_NumParts :: u32
  Blob_Unknow :: "u32 list"
  Blob_Name :: bytes
  Blob_Offset :: u32
  Blob_Size :: u32
  Blob_Version :: u32

definition BlobHdr_layout :: "BlobHdr layout" where
  "BlobHdr_layout = struct
     (\<lambda>(a, b, c, d, e, f, g, h, i, j, k, l, m).
       \<lparr>Blob_SecureMagic = a, Blob_Datalen = b, Blob_Signature = c, Blob_Magic = d,
         Blob_HdrVersion = e, Blob_HdrSize = f, Blob_PartOffset = g, Blob_NumParts = h,
         Blob_Unknow = i, Blob_Name = j, Blob_Offset = k, Blob_Size = l, Blob_Version = m\<rparr>)
     (\<lambda>h. (Blob_SecureMagic h, Blob_Datalen h, Blob_Signature h, Blob_Magic h,
       Blob_HdrVersion h, Blob_HdrSize h, Blob_PartOffset h, Blob_NumParts h, Blob_Unknow h,
       Blob_Name h, Blob_Offset h, Blob_Size h, Blob_Version h))
     (seq (Bytes 20) (seq U32 (seq U32 (seq (Bytes 16) (seq U32 (seq U32 (seq U32 (seq U32
      (seq (Array 7 U32) (seq (Bytes 4) (seq U32 (seq U32 U32))))))))))))"

lemma lawful_BlobHdr [lawful_intros]: "lawful BlobHdr_layout"
  unfolding BlobHdr_layout_def by (rule lawful_struct, intro lawful_intros) auto

lemma width_BlobHdr [layout_sizes]: "lwidth BlobHdr_layout = 104"
  by (simp add: BlobHdr_layout_def layout_widths layout_sizes)

record ZimageHdr =
  Z_Code :: "u32 list"
  Z_Magic :: u32
  Z_Start :: u32
  Z_End :: u32
  Z_Endian :: u32

definition ZimageHdr_layout :: "ZimageHdr layout" where
  "ZimageHdr_layout = struct
     (\<lambda>(a, b, c, d, e).
       \<lparr>Z_Code = a, Z_Magic = b, Z_Start = c, Z_End = d, Z_Endian = e\<rparr>)
     (\<lambda>h. (Z_Code h, Z_Magic h, Z_Start h, Z_End h, Z_Endian h))
     (seq (Array 9 U32) (seq U32 (seq U32 (seq U32 U32))))"

lemma lawful_ZimageHdr [lawful_intros]: "lawful ZimageHdr_layout"
  unfolding ZimageHdr_layout_def by (rule lawful_struct, intro lawful_intros) auto

lemma width_ZimageHdr [layout_sizes]: "lwidth ZimageHdr_layout = 52"
  by (simp add: ZimageHdr_layout_def layout_widths layout_sizes)

record AvbFooter =
  Avb_Magic :: bytes
  Avb_VersionMajor :: u32
  Avb_VersionMinor :: u32
  Avb_OriginalImageSize :: u64
  Avb_VbmetaOffset :: u64
  Avb_VbmetaSize :: u64
  Avb_Reserved :: bytes

definition AvbFooter_layout :: "AvbFooter layout" where
  "AvbFooter_layout = struct
     (\<lambda>(a, b, c, d, e, f, g).
       \<lparr>Avb_Magic = a, Avb_VersionMajor = b, Avb_VersionMinor = c,
         Avb_OriginalImageSize = d, Avb_VbmetaOffset = e, Avb_VbmetaSize = f, Avb_Reserved = g\<rparr>)
     (\<lambda>h. (Avb_Magic h, Avb_VersionMajor h, Avb_VersionMinor h,
       Avb_OriginalImageSize h, Avb_VbmetaOffset h, Avb_VbmetaSize h, Avb_Reserved h))
     (seq (Bytes 4) (seq U32 (seq U32 (seq U64 (seq U64 (seq U64 (Bytes 28)))))))"

lemma lawful_AvbFooter [lawful_intros]: "lawful AvbFooter_layout"
  unfolding AvbFooter_layout_def by (rule lawful_struct, intro lawful_intros) auto

lemma width_AvbFooter [layout_sizes]: "lwidth AvbFooter_layout = 64"
  by (simp add: AvbFooter_layout_def layout_widths layout_sizes)

record AvbVBMetaImageHeader =
  Vbm_Magic :: bytes
  Vbm_RequiredLibavbVersionMajor :: u32
  Vbm_RequiredLibavbVersionMinor :: u32
  Vbm_AuthenticationDataBlockSize :: u64
  Vbm_AuxiliaryDataBlockSize :: u64
  Vbm_AlgorithmType :: u32
  Vbm_HashOffset :: u64
  Vbm_HashSize :: u64
  Vbm_SignatureOffset :: u64
  Vbm_SignatureSize :: u64
  Vbm_PublicKeyOffset :: u64
  Vbm_PublicKeySize :: u64
  Vbm_PublicKeyMetadataOffset :: u64
  Vbm_PublicKeyMetadataSize :: u64
  Vbm_DescriptorsOffset :: u64
  Vbm_DescriptorsSize :: u64
  Vbm_RollbackIndex :: u64
  Vbm_Flags :: u32
  Vbm_RollbackIndexLocation :: u32
  Vbm_ReleaseString :: bytes
  Vbm_Reserved :: bytes

definition AvbVBMetaImageHeader_layout :: "AvbVBMetaImageHeader layout" where
  "AvbVBMetaImageHeader_layout = struct
     (\<lambda>(a, b, c, d, e, f, g, h, i, j, k, l, m, n, x14, x15, x16, x17, x18, x19, x20).
       \<lparr>Vbm_Magic = a, Vbm_RequiredLibavbVersionMajor = b,
         Vbm_RequiredLibavbVersionMinor = c, Vbm_AuthenticationDataBlockSize = d,
         Vbm_AuxiliaryDataBlockSize = e, Vbm_AlgorithmType = f, Vbm_HashOffset = g,
         Vbm_HashSize = h, Vbm_SignatureOffset = i, Vbm_SignatureSize = j,
         Vbm_PublicKeyOffset = k, Vbm_PublicKeySize = l, Vbm_PublicKeyMetadataOffset = m,
         Vbm_PublicKeyMetadataSize = n, Vbm_DescriptorsOffset = x14, Vbm_DescriptorsSize = x15,
         Vbm_RollbackIndex = x16, Vbm_Flags = x17, Vbm_RollbackIndexLocation = x18,
         Vbm_ReleaseString = x19, Vbm_Reserved = x20\<rparr>)
     (\<lambda>h. (Vbm_Magic h, Vbm_RequiredLibavbVersionMajor h,
       Vbm_RequiredLibavbVersionMinor h, Vbm_AuthenticationDataBlockSize h,
       Vbm_AuxiliaryDataBlockSize h, Vbm_AlgorithmType h, Vbm_HashOffset h, Vbm_HashSize h,
       Vbm_SignatureOffset h, Vbm_SignatureSize h, Vbm_PublicKeyOffset h, Vbm_PublicKeySize h,
       Vbm_PublicKeyMetadataOffset h, Vbm_PublicKeyMetadataSize h, Vbm_DescriptorsOffset h,
       Vbm_DescriptorsSize h, Vbm_RollbackIndex h, Vbm_Flags h, Vbm_RollbackIndexLocation h,
       Vbm_ReleaseString h, Vbm_Reserved h))
     (seq (Bytes 4) (seq U32 (seq U32 (seq U64 (seq U64 (seq U32 (seq U64 (seq U64 (seq U64
      (seq U64 (seq U64 (seq U64 (seq U64 (seq U64 (seq U64 (seq U64 (seq U64 (seq U32 (seq U32
      (seq (Bytes 48) (Bytes 80)))))))))))))))))))))"

lemma lawful_AvbVBMetaImageHeader [lawful_intros]: "lawful AvbVBMetaImageHeader_layout"
  unfolding AvbVBMetaImageHeader_layout_def by (rule lawful_struct, intro lawful_intros) auto

lemma width_AvbVBMetaImageHeader [layout_sizes]: "lwidth AvbVBMetaImageHeader_layout = 256"
  by (simp add: AvbVBMetaImageHeader_layout_def layout_widths layout_sizes)

record BootImgHdrV0Common =
  V0C_Magic :: bytes
  V0C_KernelSize :: u32
  V0C_KernelAddr :: u32
  V0C_RamdiskSize :: u32
  V0C_RamdiskAddr :: u32
  V0C_SecondSize :: u32
  V0C_SecondAddr :: u32

definition BootImgHdrV0Common_layout :: "BootImgHdrV0Common layout" where
  "BootImgHdrV0Common_layout = struct
     (\<lambda>(a, b, c, d, e, f, g).
       \<lparr>V0C_Magic = a, V0C_KernelSize = b, V0C_KernelAddr = c, V0C_RamdiskSize = d,
         V0C_RamdiskAddr = e, V0C_SecondSize = f, V0C_SecondAddr = g\<rparr>)
     (\<lambda>h. (V0C_Magic h, V0C_KernelSize h, V0C_KernelAddr h, V0C_RamdiskSize h,
       V0C_RamdiskAddr h, V0C_SecondSize h, V0C_SecondAddr h))
     (seq (Bytes 8) (seq U32 (seq U32 (seq U32 (seq U32 (seq U32 U32))))))"

lemma lawful_BootImgHdrV0Common [lawful_intros]: "lawful BootImgHdrV0Common_layout"
  unfolding BootImgHdrV0Common_layout_def by (rule lawful_struct, intro lawful_intros) auto

lemma width_BootImgHdrV0Common [layout_sizes]: "lwidth BootImgHdrV0Common_layout = 32"
  by (simp add: BootImgHdrV0Common_layout_def layout_widths layout_sizes)

record BootImgHdrV0 =
  V0_Common :: BootImgHdrV0Common
  V0_TagsAddr :: u32
  V0_PageSize :: u32
  V0_HeaderVersion :: u32
  V0_OsVersion :: u32
  V0_Name :: bytes
  V0_Cmdline :: bytes
  V0_Id :: bytes
  V0_ExtraCmdline :: bytes

definition BootImgHdrV0_layout :: "BootImgHdrV0 layout" where
  "BootImgHdrV0_layout = struct
     (\<lambda>(a, b, c, d, e, f, g, h, i).
       \<lparr>V0_Common = a, V0_TagsAddr = b, V0_PageSize = c, V0_HeaderVersion = d,
         V0_OsVersion = e, V0_Name = f, V0_Cmdline = g, V0_Id = h, V0_ExtraCmdline = i\<rparr>)
     (\<lambda>h. (V0_Common h, V0_TagsAddr h, V0_PageSize h, V0_HeaderVersion h,
       V0_OsVersion h, V0_Name h, V0_Cmdline h, V0_Id h, V0_ExtraCmdline h))
     (seq BootImgHdrV0Common_layout (seq U32 (seq U32 (seq U32 (seq U32 (seq (Bytes 16)
      (seq (Bytes 512) (seq (Bytes 32) (Bytes 1024)))))))))"

lemma lawful_BootImgHdrV0 [lawful_intros]: "lawful BootImgHdrV0_layout"
  unfolding BootImgHdrV0_layout_def by (rule lawful_struct, intro lawful_intros) auto

lemma width_BootImgHdrV0 [layout_sizes]: "lwidth BootImgHdrV0_layout = 1632"
  by (simp add: BootImgHdrV0_layout_def layout_widths layout_sizes)

record BootImgHdrV1 =
  V1_V0 :: BootImgHdrV0
  V1_RecoveryDtboSize :: u32
  V1_RecoveryDtboOffset :: u64
  V1_HeaderSize :: u32

definition BootImgHdrV1_layout :: "BootImgHdrV1 layout" where
  "BootImgHdrV1_layout = struct
     (\<lambda>(a, b, c, d).
       \<lparr>V1_V0 = a, V1_RecoveryDtboSize = b, V1_RecoveryDtboOffset = c, V1_HeaderSize = d\<rparr>)
     (\<lambda>h. (V1_V0 h, V1_RecoveryDtboSize h, V1_RecoveryDtboOffset h, V1_HeaderSize h))
     (seq BootImgHdrV0_layout (seq U32 (seq U64 U32)))"

lemma lawful_BootImgHdrV1 [lawful_intros]: "lawful BootImgHdrV1_layout"
  unfolding BootImgHdrV1_layout_def by (rule lawful_struct, intro lawful_intros) auto

lemma width_BootImgHdrV1 [layout_sizes]: "lwidth BootImgHdrV1_layout = 1648"
  by (simp add: BootImgHdrV1_layout_def layout_widths layout_sizes)

record BootImgHdrV2 =
  V2_V1 :: BootImgHdrV1
  V2_DtbSize :: u32
  V2_DtbAddr :: u64

definition BootImgHdrV2_layout :: "BootImgHdrV2 layout" where
  "BootImgHdrV2_layout = struct
     (\<lambda>(a, b, c).
       \<lparr>V2_V1 = a, V2_DtbSize = b, V2_DtbAddr = c\<rparr>)
     (\<lambda>h. (V2_V1 h, V2_DtbSize h, V2_DtbAddr h))
     (seq BootImgHdrV1_layout (seq U32 U64))"

lemma lawful_BootImgHdrV2 [lawful_intros]: "lawful BootImgHdrV2_layout"
  unfolding BootImgHdrV2_layout_def by (rule lawful_struct, intro lawful_intros) auto

lemma width_BootImgHdrV2 [layout_sizes]: "lwidth BootImgHdrV2_layout = 1660"
  by (simp add: BootImgHdrV2_layout_def layout_widths layout_sizes)

record BootImgHdrPxa =
  Pxa_Common :: BootImgHdrV0Common
  Pxa_ExtraSize :: u32
  Pxa_Unknown :: u32
  Pxa_TagsAddr :: u32
  Pxa_PageSize :: u32
  Pxa_Name :: bytes
  Pxa_Cmdline :: bytes
  Pxa_Id :: bytes
  Pxa_ExtraCmdline :: bytes

definition BootImgHdrPxa_layout :: "BootImgHdrPxa layout" where
  "BootImgHdrPxa_layout = struct
     (\<lambda>(a, b, c, d, e, f, g, h, i).
       \<lparr>Pxa_Common = a, Pxa_ExtraSize = b, Pxa_Unknown = c, Pxa_TagsAddr = d,
         Pxa_PageSize = e, Pxa_Name = f, Pxa_Cmdline = g, Pxa_Id = h, Pxa_ExtraCmdline = i\<rparr>)
     (\<lambda>h. (Pxa_Common h, Pxa_ExtraSize h, Pxa_Unknown h, Pxa_TagsAddr h,
       Pxa_PageSize h, Pxa_Name h, Pxa_Cmdline h, Pxa_Id h, Pxa_ExtraCmdline h))
     (seq BootImgHdrV0Common_layout (seq U32 (seq U32 (seq U32 (seq U32 (seq (Bytes 24)
      (seq (Bytes 512) (seq (Bytes 32) (Bytes 1024)))))))))"

lemma lawful_BootImgHdrPxa [lawful_intros]: "lawful BootImgHdrPxa_layout"
  unfolding BootImgHdrPxa_layout_def by (rule lawful_struct, intro lawful_intros) auto

lemma width_BootImgHdrPxa [layout_sizes]: "lwidth BootImgHdrPxa_layout = 1640"
  by (simp add: BootImgHdrPxa_layout_def layout_widths layout_sizes)

record BootImgHdrV3 =
  V3_Magic :: bytes
  V3_KernelSize :: u32
  V3_RamdiskSize :: u32
  V3_OsVersion :: u32
  V3_HeaderSize :: u32
  V3_Reserved :: "u32 list"
  V3_HeaderVersion :: u32
  V3_Cmdline :: bytes

definition BootImgHdrV3_layout :: "BootImgHdrV3 layout" where
  "BootImgHdrV3_layout = struct
     (\<lambda>(a, b, c, d, e, f, g, h).
       \<lparr>V3_Magic = a, V3_KernelSize = b, V3_RamdiskSize = c, V3_OsVersion = d,
         V3_HeaderSize = e, V3_Reserved = f, V3_HeaderVersion = g, V3_Cmdline = h\<rparr>)
     (\<lambda>h. (V3_Magic h, V3_KernelSize h, V3_RamdiskSize h, V3_OsVersion h,
       V3_HeaderSize h, V3_Reserved h, V3_HeaderVersion h, V3_Cmdline h))
     (seq (Bytes 8) (seq U32 (seq U32 (seq U32 (seq U32 (seq (Array 4 U32) (seq U32
      (Bytes 1536))))))))"

lemma lawful_BootImgHdrV3 [lawful_intros]: "lawful BootImgHdrV3_layout"
  unfolding BootImgHdrV3_layout_def by (rule lawful_struct, intro lawful_intros) auto

lemma width_BootImgHdrV3 [layout_sizes]: "lwidth BootImgHdrV3_layout = 1580"
  by (simp add: BootImgHdrV3_layout_def layout_widths layout_sizes)

record BootImgHdrVndV3 =
  Vnd3_Magic :: bytes
  Vnd3_HeaderVersion :: u32
  Vnd3_PageSize :: u32
  Vnd3_KernelAddr :: u32
  Vnd3_RamdiskAddr :: u32
  Vnd3_RamdiskSize :: u32
  Vnd3_Cmdline :: bytes
  Vnd3_TagsAddr :: u32
  Vnd3_Name :: bytes
  Vnd3_HeaderSize :: u32
  Vnd3_DtbSize :: u32
  Vnd3_DtbAddr :: u64

definition BootImgHdrVndV3_layout :: "BootImgHdrVndV3 layout" where
  "BootImgHdrVndV3_layout = struct
     (\<lambda>(a, b, c, d, e, f, g, h, i, j, k, l).
       \<lparr>Vnd3_Magic = a, Vnd3_HeaderVersion = b, Vnd3_PageSize = c, Vnd3_KernelAddr = d,
         Vnd3_RamdiskAddr = e, Vnd3_RamdiskSize = f, Vnd3_Cmdline = g, Vnd3_TagsAddr = h,
         Vnd3_Name = i, Vnd3_HeaderSize = j, Vnd3_DtbSize = k, Vnd3_DtbAddr = l\<rparr>)
     (\<lambda>h. (Vnd3_Magic h, Vnd3_HeaderVersion h, Vnd3_PageSize h, Vnd3_KernelAddr h,
       Vnd3_RamdiskAddr h, Vnd3_RamdiskSize h, Vnd3_Cmdline h, Vnd3_TagsAddr h, Vnd3_Name h,
       Vnd3_HeaderSize h, Vnd3_DtbSize h, Vnd3_DtbAddr h))
     (seq (Bytes 8) (seq U32 (seq U32 (seq U32 (seq U32 (seq U32 (seq (Bytes 2048) (seq U32
      (seq (Bytes 16) (seq U32 (seq U32 U64)))))))))))"

lemma lawful_BootImgHdrVndV3 [lawful_intros]: "lawful BootImgHdrVndV3_layout"
  unfolding BootImgHdrVndV3_layout_def by (rule lawful_struct, intro lawful_intros) auto

lemma width_BootImgHdrVndV3 [layout_sizes]: "lwidth BootImgHdrVndV3_layout = 2112"
  by (simp add: BootImgHdrVndV3_layout_def layout_widths layout_sizes)

record BootImgHdrV4 =
  V4_V3 :: BootImgHdrV3
  V4_SignatureSize :: u32

definition BootImgHdrV4_layout :: "BootImgHdrV4 layout" where
  "BootImgHdrV4_layout = struct
     (\<lambda>(a, b).
       \<lparr>V4_V3 = a, V4_SignatureSize = b\<rparr>)
     (\<lambda>h. (V4_V3 h, V4_SignatureSize h))
     (seq BootImgHdrV3_layout U32)"

lemma lawful_BootImgHdrV4 [lawful_intros]: "lawful BootImgHdrV4_layout"
  unfolding BootImgHdrV4_layout_def by (rule lawful_struct, intro lawful_intros) auto

lemma width_BootImgHdrV4 [layout_sizes]: "lwidth BootImgHdrV4_layout = 1584"
  by (simp add: BootImgHdrV4_layout_def layout_widths layout_sizes)

record BootImgHdrVndV4 =
  Vnd4_V3 :: BootImgHdrVndV3
  Vnd4_VendorRamdiskTableSize :: u32
  Vnd4_VendorRamdiskTableEntryNum :: u32
  Vnd4_VendorRamdiskTableEntrySize :: u32
  Vnd4_BootconfigSize :: u32

definition BootImgHdrVndV4_layout :: "BootImgHdrVndV4 layout" where
  "BootImgHdrVndV4_layout = struct
     (\<lambda>(a, b, c, d, e).
       \<lparr>Vnd4_V3 = a, Vnd4_VendorRamdiskTableSize = b,
         Vnd4_VendorRamdiskTableEntryNum = c, Vnd4_VendorRamdiskTableEntrySize = d,
         Vnd4_BootconfigSize = e\<rparr>)
     (\<lambda>h. (Vnd4_V3 h, Vnd4_VendorRamdiskTableSize h, Vnd4_VendorRamdiskTableEntryNum h,
       Vnd4_VendorRamdiskTableEntrySize h, Vnd4_BootconfigSize h))
     (seq BootImgHdrVndV3_layout (seq U32 (seq U32 (seq U32 U32))))"

lemma lawful_BootImgHdrVndV4 [lawful_intros]: "lawful BootImgHdrVndV4_layout"
  unfolding BootImgHdrVndV4_layout_def by (rule lawful_struct, intro lawful_intros) auto

lemma width_BootImgHdrVndV4 [layout_sizes]: "lwidth BootImgHdrVndV4_layout = 2128"
  by (simp add: BootImgHdrVndV4_layout_def layout_widths layout_sizes)

record VendorRamdiskTableEntryV4 =
  Vrt_RamdiskSize :: u32
  Vrt_RamdiskOffset :: u32
  Vrt_RamdiskType :: u32
  Vrt_RamdiskName :: bytes
  Vrt_BoardId :: "u32 list"

definition VendorRamdiskTableEntryV4_layout :: "VendorRamdiskTableEntryV4 layout" where
  "VendorRamdiskTableEntryV4_layout = struct
     (\<lambda>(a, b, c, d, e).
       \<lparr>Vrt_RamdiskSize = a, Vrt_RamdiskOffset = b, Vrt_RamdiskType = c,
         Vrt_RamdiskName = d, Vrt_BoardId = e\<rparr>)
     (\<lambda>h. (Vrt_RamdiskSize h, Vrt_RamdiskOffset h, Vrt_RamdiskType h,
       Vrt_RamdiskName h, Vrt_BoardId h))
     (seq U32 (seq U32 (seq U32 (seq (Bytes 32) (Array 16 U32)))))"

lemma lawful_VendorRamdiskTableEntryV4 [lawful_intros]: "lawful VendorRamdiskTableEntryV4_layout"
  unfolding VendorRamdiskTableEntryV4_layout_def by (rule lawful_struct, intro lawful_intros) auto

lemma width_VendorRamdiskTableEntryV4 [layout_sizes]: "lwidth VendorRamdiskTableEntryV4_layout = 108"
  by (simp add: VendorRamdiskTableEntryV4_layout_def layout_widths layout_sizes)
end
