(* ===== verification/Boot_Views.thy ===== *)
theory Boot_Views
  imports Boot_Headers
begin

text \<open>
  The header views of \<open>bootimg.go\<close>: \<open>DynImgHdr\<close> with its own fields (which every view hides
  behind pointers of the same names, and nothing sets) and its four header structures, the
  \<open>Init\<close> methods that fill these, and the accessors. A pointer to a field is the function that reads
  the field in the current state. Go resolves a promoted method in the embedded type, so a
  method of \<open>DynImgHdr\<close> that calls another one calls that of \<open>DynImgHdr\<close>, whatever the outer
  type; the accessors are resolved accordingly.
\<close>

section \<open>State\<close>

record DynImgHdr =
  Own_KernelSize :: u32
  Own_RamdiskSize :: u32
  Own_SecondSize :: u32
  Own_ExtraSize :: u32
  Own_OsVersion :: u32
  Own_Name :: bytes
  Own_Cmdline :: bytes
  Own_Id :: bytes
  Own_ExtraCmdline :: bytes
  Own_RecoveryDtboSize :: u32
  Own_RecoveryDtboOffset :: u64
  Own_HeaderSize :: u32
  Own_DtbSize :: u32
  Own_VendorRamdiskTableSize :: u32
  Own_VendorRamdiskTableEntryNum :: u32
  Own_VendorRamdiskTableEntrySize :: u32
  Own_BootconfigSize :: u32
  V2Hdr :: BootImgHdrV2
  V4Hdr :: BootImgHdrV4
  V4Vnd :: BootImgHdrVndV4
  HdrPxa :: BootImgHdrPxa

datatype dyn_kind = KindV0 | KindV1 | KindV2 | KindPxa | KindV3 | KindV4 | KindVndV3 | KindVndV4

text \<open>The nested structures reached through embedding.\<close>

definition hdr_v1 :: "DynImgHdr \<Rightarrow> BootImgHdrV1" where
  "hdr_v1 d = V2_V1 (V2Hdr d)"

definition hdr_v0 :: "DynImgHdr \<Rightarrow> BootImgHdrV0" where
  "hdr_v0 d = V1_V0 (hdr_v1 d)"

definition hdr_common :: "DynImgHdr \<Rightarrow> BootImgHdrV0Common" where
  "hdr_common d = V0_Common (hdr_v0 d)"

definition hdr_v3 :: "DynImgHdr \<Rightarrow> BootImgHdrV3" where
  "hdr_v3 d = V4_V3 (V4Hdr d)"

definition set_hdr_v1 :: "BootImgHdrV1 \<Rightarrow> DynImgHdr \<Rightarrow> DynImgHdr" where
  "set_hdr_v1 r d = d\<lparr>V2Hdr := (V2Hdr d)\<lparr>V2_V1 := r\<rparr>\<rparr>"

definition set_hdr_v0 :: "BootImgHdrV0 \<Rightarrow> DynImgHdr \<Rightarrow> DynImgHdr" where
  "set_hdr_v0 r d = set_hdr_v1 ((hdr_v1 d)\<lparr>V1_V0 := r\<rparr>) d"

definition set_hdr_v3 :: "BootImgHdrV3 \<Rightarrow> DynImgHdr \<Rightarrow> DynImgHdr" where
  "set_hdr_v3 r d = d\<lparr>V4Hdr := (V4Hdr d)\<lparr>V4_V3 := r\<rparr>\<rparr>"

lemmas hdr_defs = hdr_v1_def hdr_v0_def hdr_common_def hdr_v3_def set_hdr_v1_def set_hdr_v0_def set_hdr_v3_def

section \<open>Init\<close>

text \<open>Every \<open>Init\<close> begins by reading its raw structure; too little data ends the process.\<close>

definition read_raw :: "'a layout \<Rightarrow> bytes \<Rightarrow> 'a go" where
  "read_raw l data =
     (if length data < lwidth l then Inl Fatal
      else case binary_Read l data of None \<Rightarrow> Inl Fatal | Some raw \<Rightarrow> Inr raw)"

type_synonym ptr32 = "DynImgHdr \<Rightarrow> u32"
type_synonym ptr64 = "DynImgHdr \<Rightarrow> u64"
type_synonym ptrb = "DynImgHdr \<Rightarrow> bytes"

record CommonPtrs =
  pKernelSize :: ptr32
  pRamdiskSize :: ptr32
  pSecondSize :: ptr32

definition DynImgCommon_Init :: CommonPtrs where
  "DynImgCommon_Init =
     \<lparr>pKernelSize = (\<lambda>d. V0C_KernelSize (hdr_common d)),
      pRamdiskSize = (\<lambda>d. V0C_RamdiskSize (hdr_common d)),
      pSecondSize = (\<lambda>d. V0C_SecondSize (hdr_common d))\<rparr>"

record V0Ptrs =
  pCommon :: CommonPtrs
  pExtraSize :: ptr32
  pOsVersion :: ptr32
  pName :: ptrb
  pCmdline :: ptrb
  pId :: ptrb
  pExtraCmdline :: ptrb

definition V0_ptrs :: V0Ptrs where
  "V0_ptrs =
     \<lparr>pCommon = DynImgCommon_Init,
      pExtraSize = (\<lambda>d. V0_HeaderVersion (hdr_v0 d)),
      pOsVersion = (\<lambda>d. V0_OsVersion (hdr_v0 d)),
      pName = (\<lambda>d. V0_Name (hdr_v0 d)),
      pCmdline = (\<lambda>d. V0_Cmdline (hdr_v0 d)),
      pId = (\<lambda>d. V0_Id (hdr_v0 d)),
      pExtraCmdline = (\<lambda>d. V0_ExtraCmdline (hdr_v0 d))\<rparr>"

definition DynImgV0_Init :: "bytes \<Rightarrow> DynImgHdr \<Rightarrow> (DynImgHdr \<times> V0Ptrs) go" where
  "DynImgV0_Init data d =
     go_bind (read_raw BootImgHdrV0_layout data) (\<lambda>raw. Inr (set_hdr_v0 raw d, V0_ptrs))"

record V1Ptrs =
  pV0 :: V0Ptrs
  pRecoveryDtboSize :: ptr32
  pRecoveryDtboOffset :: ptr64
  pHeaderSize :: ptr32

definition V1_ptrs :: "V0Ptrs \<Rightarrow> V1Ptrs" where
  "V1_ptrs p =
     \<lparr>pV0 = p,
      pRecoveryDtboSize = (\<lambda>d. V1_RecoveryDtboSize (hdr_v1 d)),
      pRecoveryDtboOffset = (\<lambda>d. V1_RecoveryDtboOffset (hdr_v1 d)),
      pHeaderSize = (\<lambda>d. V1_HeaderSize (hdr_v1 d))\<rparr>"

definition DynImgV1_Init :: "bytes \<Rightarrow> DynImgHdr \<Rightarrow> (DynImgHdr \<times> V1Ptrs) go" where
  "DynImgV1_Init data d =
     go_bind (read_raw BootImgHdrV1_layout data) (\<lambda>raw.
     go_bind (DynImgV0_Init data d) (\<lambda>(d', p). Inr (set_hdr_v1 raw d', V1_ptrs p)))"

definition DynImgV2_Init :: "bytes \<Rightarrow> DynImgHdr \<Rightarrow> (DynImgHdr \<times> V1Ptrs \<times> ptr32) go" where
  "DynImgV2_Init data d =
     go_bind (read_raw BootImgHdrV2_layout data) (\<lambda>raw.
     go_bind (DynImgV1_Init data d) (\<lambda>(d', p). Inr
       (d'\<lparr>V2Hdr := raw\<rparr>, p, \<lambda>d. V2_DtbSize (V2Hdr d))))"

record PxaPtrs =
  xExtraSize :: ptr32
  xName :: ptrb
  xCmdline :: ptrb
  xId :: ptrb
  xExtraCmdline :: ptrb

definition DynImgPxa_Init :: "bytes \<Rightarrow> DynImgHdr \<Rightarrow> (DynImgHdr \<times> PxaPtrs) go" where
  "DynImgPxa_Init data d =
     go_bind (read_raw BootImgHdrPxa_layout data) (\<lambda>raw. Inr
       (d\<lparr>HdrPxa := raw\<rparr>,
        \<lparr>xExtraSize = (\<lambda>d. Pxa_ExtraSize (HdrPxa d)),
         xName = (\<lambda>d. Pxa_Name (HdrPxa d)),
         xCmdline = (\<lambda>d. Pxa_Cmdline (HdrPxa d)),
         xId = (\<lambda>d. Pxa_Id (HdrPxa d)),
         xExtraCmdline = (\<lambda>d. Pxa_ExtraCmdline (HdrPxa d))\<rparr>))"

text \<open>\<open>KernelSize\<close> is set to the address of \<open>HeaderSize\<close>; \<open>ExtraCmdline\<close> points into \<open>Cmdline\<close>.\<close>

record V3Ptrs =
  tKernelSize :: ptr32
  tRamdiskSize :: ptr32
  tOsVersion :: ptr32
  tHeaderSize :: ptr32
  tCmdline :: ptrb
  tExtraCmdline :: ptrb

definition DynImgV3_Init :: "bytes \<Rightarrow> DynImgHdr \<Rightarrow> (DynImgHdr \<times> V3Ptrs) go" where
  "DynImgV3_Init data d =
     go_bind (read_raw BootImgHdrV3_layout data) (\<lambda>raw. Inr
       (set_hdr_v3 raw d,
        \<lparr>tKernelSize = (\<lambda>d. V3_HeaderSize (hdr_v3 d)),
         tRamdiskSize = (\<lambda>d. V3_RamdiskSize (hdr_v3 d)),
         tOsVersion = (\<lambda>d. V3_OsVersion (hdr_v3 d)),
         tHeaderSize = (\<lambda>d. V3_HeaderSize (hdr_v3 d)),
         tCmdline = (\<lambda>d. V3_Cmdline (hdr_v3 d)),
         tExtraCmdline = (\<lambda>d. drop 512 (V3_Cmdline (hdr_v3 d)))\<rparr>))"

definition DynImgV4_Init :: "bytes \<Rightarrow> DynImgHdr \<Rightarrow> (DynImgHdr \<times> V3Ptrs) go" where
  "DynImgV4_Init data d =
     go_bind (read_raw BootImgHdrV4_layout data) (\<lambda>raw.
     go_bind (DynImgV3_Init data d) (\<lambda>(d', p). Inr (d'\<lparr>V4Hdr := raw\<rparr>, p)))"

text \<open>
  The vendor views point into their own copy \<open>Raw\<close> of the structure, which nothing changes
  after \<open>Init\<close>: the pointers are the values read.
\<close>

record VndPtrs =
  vRamdiskSize :: u32
  vCmdline :: bytes
  vName :: bytes
  vHeaderSize :: u32
  vDtbSize :: u32

definition DynImgVndV3_Init :: "bytes \<Rightarrow> DynImgHdr \<Rightarrow> (DynImgHdr \<times> VndPtrs) go" where
  "DynImgVndV3_Init data d =
     go_bind (read_raw BootImgHdrVndV3_layout data) (\<lambda>raw. Inr
       (d\<lparr>V4Vnd := (V4Vnd d)\<lparr>Vnd4_V3 := raw\<rparr>\<rparr>,
        \<lparr>vRamdiskSize = Vnd3_RamdiskSize raw, vCmdline = Vnd3_Cmdline raw, vName = Vnd3_Name raw,
         vHeaderSize = Vnd3_HeaderSize raw, vDtbSize = Vnd3_DtbSize raw\<rparr>))"

definition DynImgVndV4_Init :: "bytes \<Rightarrow> DynImgHdr \<Rightarrow> (DynImgHdr \<times> VndPtrs \<times> u32) go" where
  "DynImgVndV4_Init data d =
     go_bind (read_raw BootImgHdrVndV4_layout data) (\<lambda>raw.
     go_bind (DynImgVndV3_Init data d) (\<lambda>(d', p). Inr
       (d'\<lparr>V4Vnd := raw\<rparr>, p, Vnd4_BootconfigSize raw)))"

section \<open>Accessors\<close>

text \<open>The methods as they are defined, by the type that defines them.\<close>

definition DynImgHdr_IsVendor :: bool where "DynImgHdr_IsVendor = False"
definition DynImgHdr_HdrSize :: u64 where "DynImgHdr_HdrSize = 0"
definition DynImgHdr_HeaderVersion :: u32 where "DynImgHdr_HeaderVersion = 0"
definition DynImgHdr_PageSize :: u32 where "DynImgHdr_PageSize = 0"
definition DynImgHdr_SignatureSize :: u32 where "DynImgHdr_SignatureSize = 0"

definition DynImgHdr_HdrSpace :: u64 where
  "DynImgHdr_HdrSpace = ucast DynImgHdr_PageSize"

definition DynImgHdrBoot_IsVendor :: bool where "DynImgHdrBoot_IsVendor = False"
definition DynImgHdrVendor_IsVendor :: bool where "DynImgHdrVendor_IsVendor = True"

definition DynImgV0_HdrSize :: nat where
  "DynImgV0_HdrSize = lwidth BootImgHdrV0_layout"

definition DynImgV0_PageSize :: "DynImgHdr \<Rightarrow> u32" where
  "DynImgV0_PageSize d = V0_PageSize (hdr_v0 d)"

definition DynImgV1_HeaderVersion :: "DynImgHdr \<Rightarrow> u32" where
  "DynImgV1_HeaderVersion d = V0_HeaderVersion (hdr_v0 d)"

definition DynImgV1_ExtraSize :: u32 where "DynImgV1_ExtraSize = 0"

definition DynImgPxa_PageSize :: "DynImgHdr \<Rightarrow> u32" where
  "DynImgPxa_PageSize d = Pxa_PageSize (HdrPxa d)"

definition DynImgV3_HeaderVersion :: "DynImgHdr \<Rightarrow> u32" where
  "DynImgV3_HeaderVersion d = V3_HeaderVersion (hdr_v3 d)"

definition DynImgV3_PageSize :: u32 where "DynImgV3_PageSize = 4096"

definition DynImgV4_SignatureSize :: "DynImgHdr \<Rightarrow> u32" where
  "DynImgV4_SignatureSize d = V4_SignatureSize (V4Hdr d)"

definition DynImgVndV3_HeaderVersion :: "DynImgHdr \<Rightarrow> u32" where
  "DynImgVndV3_HeaderVersion d = Vnd3_HeaderVersion (Vnd4_V3 (V4Vnd d))"

definition DynImgVndV3_PageSize :: "DynImgHdr \<Rightarrow> u32" where
  "DynImgVndV3_PageSize d = Vnd3_PageSize (Vnd4_V3 (V4Vnd d))"

text \<open>
  \<open>DynImgVndV3.HdrSpace\<close> aligns \<open>DynImgHdr.HdrSize\<close>, the only one in its method set, to the page
  size.
\<close>

definition DynImgVndV3_HdrSpace :: "DynImgHdr \<Rightarrow> u64 go" where
  "DynImgVndV3_HdrSpace d = align_to DynImgHdr_HdrSize (ucast (DynImgVndV3_PageSize d))"

definition VendorRamdiskTableSize :: "DynImgHdr \<Rightarrow> u32" where
  "VendorRamdiskTableSize d = Vnd4_VendorRamdiskTableSize (V4Vnd d)"

definition VendorRamdiskTableEntryNum :: "DynImgHdr \<Rightarrow> u32" where
  "VendorRamdiskTableEntryNum d = Vnd4_VendorRamdiskTableEntryNum (V4Vnd d)"

definition VendorRamdiskTableEntrySize :: "DynImgHdr \<Rightarrow> u32" where
  "VendorRamdiskTableEntrySize d = Vnd4_VendorRamdiskTableEntrySize (V4Vnd d)"

text \<open>The method a value of each type has: its own, or the one of the innermost embedded type.\<close>

fun IsVendor :: "dyn_kind \<Rightarrow> bool" where
  "IsVendor KindVndV3 = DynImgHdrVendor_IsVendor"
| "IsVendor KindVndV4 = DynImgHdrVendor_IsVendor"
| "IsVendor _ = DynImgHdrBoot_IsVendor"

fun PageSize :: "dyn_kind \<Rightarrow> DynImgHdr \<Rightarrow> u32" where
  "PageSize KindPxa d = DynImgPxa_PageSize d"
| "PageSize KindV3 d = DynImgV3_PageSize"
| "PageSize KindV4 d = DynImgV3_PageSize"
| "PageSize KindVndV3 d = DynImgVndV3_PageSize d"
| "PageSize KindVndV4 d = DynImgVndV3_PageSize d"
| "PageSize _ d = DynImgV0_PageSize d"

fun HeaderVersion :: "dyn_kind \<Rightarrow> DynImgHdr \<Rightarrow> u32" where
  "HeaderVersion KindV1 d = DynImgV1_HeaderVersion d"
| "HeaderVersion KindV2 d = DynImgV1_HeaderVersion d"
| "HeaderVersion KindV3 d = DynImgV3_HeaderVersion d"
| "HeaderVersion KindV4 d = DynImgV3_HeaderVersion d"
| "HeaderVersion KindVndV3 d = DynImgVndV3_HeaderVersion d"
| "HeaderVersion KindVndV4 d = DynImgVndV3_HeaderVersion d"
| "HeaderVersion _ d = DynImgHdr_HeaderVersion"

fun SignatureSize :: "dyn_kind \<Rightarrow> DynImgHdr \<Rightarrow> u32" where
  "SignatureSize KindV4 d = DynImgV4_SignatureSize d"
| "SignatureSize _ d = DynImgHdr_SignatureSize"

definition HdrSpace :: "dyn_kind \<Rightarrow> DynImgHdr \<Rightarrow> u64 go" where
  "HdrSpace k d = (if k \<in> {KindVndV3, KindVndV4} then DynImgVndV3_HdrSpace d else Inr DynImgHdr_HdrSpace)"

lemmas accessor_defs = DynImgHdr_IsVendor_def DynImgHdr_HdrSize_def DynImgHdr_HeaderVersion_def DynImgHdr_PageSize_def
  DynImgHdr_SignatureSize_def DynImgHdr_HdrSpace_def DynImgHdrBoot_IsVendor_def DynImgHdrVendor_IsVendor_def
  DynImgV0_HdrSize_def DynImgV0_PageSize_def DynImgV1_HeaderVersion_def DynImgPxa_PageSize_def DynImgV3_HeaderVersion_def
  DynImgV3_PageSize_def DynImgV4_SignatureSize_def DynImgVndV3_HeaderVersion_def DynImgVndV3_PageSize_def
  DynImgVndV3_HdrSpace_def VendorRamdiskTableSize_def VendorRamdiskTableEntryNum_def VendorRamdiskTableEntrySize_def

section \<open>What Init reads\<close>

lemma read_raw_put: "lawful l \<Longrightarrow> lok l x \<Longrightarrow> read_raw l (lput l x @ rest) = Inr x"
  using lawful_width [of l x] by (simp add: read_raw_def binary_Read_put)

lemma read_raw_short: "length data < lwidth l \<Longrightarrow> read_raw l data = Inl Fatal"
  by (simp add: read_raw_def)

lemma read_raw_total: "lawful l \<Longrightarrow> lwidth l \<le> length data \<Longrightarrow> \<exists>x rest. read_raw l data = Inr x \<and> lok l x \<and> data = lput l x @ rest"
proof -
  assume l: "lawful l" "lwidth l \<le> length data"
  then obtain x rest where "lget l data = Some (x, rest)" using lawful_total [of l data] by auto
  with l lawful_sound [OF l(1) this] show ?thesis
    by (intro exI [of _ x] exI [of _ rest]) (simp add: read_raw_def binary_Read_def)
qed

lemma lput_struct: "lput (struct mk un a) h = lput a (un h)" "lok (struct mk un a) h = lok a (un h)"
  by (simp_all add: struct_def)

lemma lput_seq: "lput (seq a b) (x, y) = lput a x @ lput b y" "lok (seq a b) (x, y) \<longleftrightarrow> lok a x \<and> lok b y"
  by (simp_all add: seq_def)

text \<open>An embedded structure comes first, so its layout reads the same bytes.\<close>

lemma embedded_put:
  "\<exists>t. lput BootImgHdrV1_layout h = lput BootImgHdrV0_layout (V1_V0 h) @ t"
  "lok BootImgHdrV1_layout h \<Longrightarrow> lok BootImgHdrV0_layout (V1_V0 h)"
  "\<exists>t. lput BootImgHdrV2_layout g = lput BootImgHdrV1_layout (V2_V1 g) @ t"
  "lok BootImgHdrV2_layout g \<Longrightarrow> lok BootImgHdrV1_layout (V2_V1 g)"
  "\<exists>t. lput BootImgHdrV4_layout f = lput BootImgHdrV3_layout (V4_V3 f) @ t"
  "lok BootImgHdrV4_layout f \<Longrightarrow> lok BootImgHdrV3_layout (V4_V3 f)"
  "\<exists>t. lput BootImgHdrVndV4_layout v = lput BootImgHdrVndV3_layout (Vnd4_V3 v) @ t"
  "lok BootImgHdrVndV4_layout v \<Longrightarrow> lok BootImgHdrVndV3_layout (Vnd4_V3 v)"
  unfolding BootImgHdrV1_layout_def BootImgHdrV2_layout_def BootImgHdrV4_layout_def BootImgHdrVndV4_layout_def
    lput_struct lput_seq
  by blast+

lemma read_raw_embedded:
  "read_raw BootImgHdrV1_layout data = Inr h \<Longrightarrow> read_raw BootImgHdrV0_layout data = Inr (V1_V0 h)"
  "read_raw BootImgHdrV2_layout data = Inr g \<Longrightarrow> read_raw BootImgHdrV1_layout data = Inr (V2_V1 g)"
  "read_raw BootImgHdrV4_layout data = Inr f \<Longrightarrow> read_raw BootImgHdrV3_layout data = Inr (V4_V3 f)"
  "read_raw BootImgHdrVndV4_layout data = Inr v \<Longrightarrow> read_raw BootImgHdrVndV3_layout data = Inr (Vnd4_V3 v)"
proof -
  have prefix: "read_raw b data = Inr (part x)"
    if r: "read_raw a data = Inr x" and l: "lawful a" "lawful b"
      and p: "\<exists>t. lput a x = lput b (part x) @ t" and o: "lok a x \<Longrightarrow> lok b (part x)"
    for a :: "'x layout" and b :: "'y layout" and x part
  proof -
    have "lwidth a \<le> length data" using r by (simp add: read_raw_def split: if_splits)
    then obtain y rest where "read_raw a data = Inr y" "lok a y" "data = lput a y @ rest"
      using read_raw_total [OF l(1)] by blast
    with r p obtain t where "lok a x" "data = lput b (part x) @ t @ rest" by auto
    with read_raw_put [OF l(2) o] show ?thesis by simp
  qed
  show "read_raw BootImgHdrV1_layout data = Inr h \<Longrightarrow> read_raw BootImgHdrV0_layout data = Inr (V1_V0 h)"
    by (erule prefix [OF _ lawful_BootImgHdrV1 lawful_BootImgHdrV0 embedded_put(1,2)])
  show "read_raw BootImgHdrV2_layout data = Inr g \<Longrightarrow> read_raw BootImgHdrV1_layout data = Inr (V2_V1 g)"
    by (erule prefix [OF _ lawful_BootImgHdrV2 lawful_BootImgHdrV1 embedded_put(3,4)])
  show "read_raw BootImgHdrV4_layout data = Inr f \<Longrightarrow> read_raw BootImgHdrV3_layout data = Inr (V4_V3 f)"
    by (erule prefix [OF _ lawful_BootImgHdrV4 lawful_BootImgHdrV3 embedded_put(5,6)])
  show "read_raw BootImgHdrVndV4_layout data = Inr v \<Longrightarrow> read_raw BootImgHdrVndV3_layout data = Inr (Vnd4_V3 v)"
    by (erule prefix [OF _ lawful_BootImgHdrVndV4 lawful_BootImgHdrVndV3 embedded_put(7,8)])
qed

lemmas init_defs = DynImgV0_Init_def DynImgV1_Init_def DynImgV2_Init_def DynImgV3_Init_def
  DynImgV4_Init_def DynImgVndV3_Init_def DynImgVndV4_Init_def DynImgPxa_Init_def DynImgCommon_Init_def

lemmas ptr_defs = DynImgCommon_Init_def V0_ptrs_def V1_ptrs_def

text \<open>
  C33. \<open>DynImgV2.Init\<close> ends the process on less than 1660 bytes. Otherwise it stores the header
  that the data begins with, changes no other header, and its pointers read the fields of
  that header, those of the embedded headers included (the one for the extra size reads the
  field of the header version).
\<close>

theorem V2_Init_spec:
  "(length data < 1660 \<longrightarrow> DynImgV2_Init data d = Inl Fatal)
   \<and> (1660 \<le> length data \<longrightarrow>
      (\<exists>h rest p dtb. data = lput BootImgHdrV2_layout h @ rest \<and> lok BootImgHdrV2_layout h
        \<and> DynImgV2_Init data d = Inr (d\<lparr>V2Hdr := h\<rparr>, p, dtb)
        \<and> map (\<lambda>f. f (d\<lparr>V2Hdr := h\<rparr>))
            [pKernelSize (pCommon (pV0 p)), pRamdiskSize (pCommon (pV0 p)), pSecondSize (pCommon (pV0 p)),
             pExtraSize (pV0 p), pOsVersion (pV0 p), pRecoveryDtboSize p, pHeaderSize p, dtb]
          = (let v1 = V2_V1 h; v0 = V1_V0 v1; c = V0_Common v0 in
             [V0C_KernelSize c, V0C_RamdiskSize c, V0C_SecondSize c, V0_HeaderVersion v0, V0_OsVersion v0,
              V1_RecoveryDtboSize v1, V1_HeaderSize v1, V2_DtbSize h])
        \<and> pRecoveryDtboOffset p (d\<lparr>V2Hdr := h\<rparr>) = V1_RecoveryDtboOffset (V2_V1 h)
        \<and> map (\<lambda>f. f (d\<lparr>V2Hdr := h\<rparr>)) [pName (pV0 p), pCmdline (pV0 p), pId (pV0 p), pExtraCmdline (pV0 p)]
          = (let v0 = V1_V0 (V2_V1 h) in [V0_Name v0, V0_Cmdline v0, V0_Id v0, V0_ExtraCmdline v0])))"
proof (intro conjI impI)
  assume "length data < 1660"
  then show "DynImgV2_Init data d = Inl Fatal"
    by (simp add: DynImgV2_Init_def read_raw_short layout_sizes)
next
  assume "1660 \<le> length data"
  then obtain h rest where h: "read_raw BootImgHdrV2_layout data = Inr h" "lok BootImgHdrV2_layout h"
    "data = lput BootImgHdrV2_layout h @ rest"
    using read_raw_total [OF lawful_BootImgHdrV2, of data] by (auto simp: layout_sizes)
  note h1 = read_raw_embedded(2) [OF h(1)]
  have "DynImgV2_Init data d = Inr (d\<lparr>V2Hdr := h\<rparr>, V1_ptrs V0_ptrs, \<lambda>d. V2_DtbSize (V2Hdr d))"
    using h(1) h1 read_raw_embedded(1) [OF h1] by (simp add: init_defs set_hdr_v0_def set_hdr_v1_def)
  then show "\<exists>h rest p dtb. data = lput BootImgHdrV2_layout h @ rest \<and> lok BootImgHdrV2_layout h
        \<and> DynImgV2_Init data d = Inr (d\<lparr>V2Hdr := h\<rparr>, p, dtb)
        \<and> map (\<lambda>f. f (d\<lparr>V2Hdr := h\<rparr>))
            [pKernelSize (pCommon (pV0 p)), pRamdiskSize (pCommon (pV0 p)), pSecondSize (pCommon (pV0 p)),
             pExtraSize (pV0 p), pOsVersion (pV0 p), pRecoveryDtboSize p, pHeaderSize p, dtb]
          = (let v1 = V2_V1 h; v0 = V1_V0 v1; c = V0_Common v0 in
             [V0C_KernelSize c, V0C_RamdiskSize c, V0C_SecondSize c, V0_HeaderVersion v0, V0_OsVersion v0,
              V1_RecoveryDtboSize v1, V1_HeaderSize v1, V2_DtbSize h])
        \<and> pRecoveryDtboOffset p (d\<lparr>V2Hdr := h\<rparr>) = V1_RecoveryDtboOffset (V2_V1 h)
        \<and> map (\<lambda>f. f (d\<lparr>V2Hdr := h\<rparr>)) [pName (pV0 p), pCmdline (pV0 p), pId (pV0 p), pExtraCmdline (pV0 p)]
          = (let v0 = V1_V0 (V2_V1 h) in [V0_Name v0, V0_Cmdline v0, V0_Id v0, V0_ExtraCmdline v0])"
    using h(2,3) by (intro exI [of _ h] exI [of _ rest] exI [of _ "V1_ptrs V0_ptrs"]
        exI [of _ "\<lambda>d. V2_DtbSize (V2Hdr d)"]) (simp add: ptr_defs hdr_defs Let_def)
qed

definition zeros :: "nat \<Rightarrow> bytes" where
  "zeros n = replicate n 0"

lemma length_zeros [simp]: "length (zeros n) = n"
  by (simp add: zeros_def)

text \<open>A parsed header of zeros, for evaluation.\<close>

definition zero_dyn :: "bytes \<Rightarrow> DynImgHdr" where
  "zero_dyn zs = \<lparr>Own_KernelSize = 0, Own_RamdiskSize = 0, Own_SecondSize = 0, Own_ExtraSize = 0,
     Own_OsVersion = 0, Own_Name = [], Own_Cmdline = [], Own_Id = [], Own_ExtraCmdline = [],
     Own_RecoveryDtboSize = 0, Own_RecoveryDtboOffset = 0, Own_HeaderSize = 0, Own_DtbSize = 0,
     Own_VendorRamdiskTableSize = 0, Own_VendorRamdiskTableEntryNum = 0,
     Own_VendorRamdiskTableEntrySize = 0, Own_BootconfigSize = 0, V2Hdr = fst (the (lget BootImgHdrV2_layout zs)), V4Hdr = fst (the (lget BootImgHdrV4_layout zs)),
     V4Vnd = fst (the (lget BootImgHdrVndV4_layout zs)), HdrPxa = fst (the (lget BootImgHdrPxa_layout zs))\<rparr>"

theorem V2_Init_spec_witness:
  "DynImgV2_Init [1, 2, 3] (zero_dyn []) = Inl Fatal
   \<and> (\<exists>h p dtb. DynImgV2_Init (zeros 1660) (zero_dyn []) = Inr ((zero_dyn [])\<lparr>V2Hdr := h\<rparr>, p, dtb)
      \<and> zeros 1660 = lput BootImgHdrV2_layout h)"
proof -
  have "DynImgV2_Init [1, 2, 3] (zero_dyn []) = Inl Fatal"
    using V2_Init_spec [of "[1, 2, 3]" "zero_dyn []"] by simp
  moreover have "1660 \<le> length (zeros 1660)" by simp
  with V2_Init_spec [of "zeros 1660" "zero_dyn []"] obtain h rest p dtb where
    h: "zeros 1660 = lput BootImgHdrV2_layout h @ rest" "lok BootImgHdrV2_layout h"
      "DynImgV2_Init (zeros 1660) (zero_dyn []) = Inr ((zero_dyn [])\<lparr>V2Hdr := h\<rparr>, p, dtb)"
    by blast
  have "length (zeros 1660) = length (lput BootImgHdrV2_layout h) + length rest"
    by (simp only: h(1) length_append)
  then have "rest = []"
    using lawful_width [OF lawful_BootImgHdrV2 h(2)] by (simp add: layout_sizes)
  ultimately show ?thesis using h by auto
qed

text \<open>
  \<open>DynImgV4.Init\<close> stores the header it reads, but the pointer meant for the kernel size
  points to the header size: it reads the field at offset 20, not the one at offset 8.
\<close>

theorem V4_kernel_size_reads_header_size:
  assumes "lok BootImgHdrV4_layout h"
  shows "\<exists>p. DynImgV4_Init (lput BootImgHdrV4_layout h @ rest) d = Inr (d\<lparr>V4Hdr := h\<rparr>, p)
    \<and> tKernelSize p (d\<lparr>V4Hdr := h\<rparr>) = V3_HeaderSize (V4_V3 h)
    \<and> tRamdiskSize p (d\<lparr>V4Hdr := h\<rparr>) = V3_RamdiskSize (V4_V3 h)
    \<and> tExtraCmdline p (d\<lparr>V4Hdr := h\<rparr>) = drop 512 (V3_Cmdline (V4_V3 h))"
proof -
  let ?data = "lput BootImgHdrV4_layout h @ rest"
  have r: "read_raw BootImgHdrV4_layout ?data = Inr h" by (rule read_raw_put [OF lawful_BootImgHdrV4 assms])
  show ?thesis using r read_raw_embedded(3) [OF r] by (simp add: init_defs hdr_defs)
qed

definition sample_v4 :: BootImgHdrV4 where
  "sample_v4 = \<lparr>V4_V3 = \<lparr>V3_Magic = str ''ANDROID!'', V3_KernelSize = 0x100000, V3_RamdiskSize = 0x2000,
     V3_OsVersion = 0, V3_HeaderSize = 1584, V3_Reserved = [0, 0, 0, 0], V3_HeaderVersion = 4,
     V3_Cmdline = zeros 1536\<rparr>, V4_SignatureSize = 0\<rparr>"

theorem V4_kernel_size_reads_header_size_witness:
  "\<exists>p. DynImgV4_Init (lput BootImgHdrV4_layout sample_v4) (zero_dyn []) = Inr ((zero_dyn [])\<lparr>V4Hdr := sample_v4\<rparr>, p)
    \<and> tKernelSize p ((zero_dyn [])\<lparr>V4Hdr := sample_v4\<rparr>) = 1584
    \<and> V3_KernelSize (hdr_v3 ((zero_dyn [])\<lparr>V4Hdr := sample_v4\<rparr>)) = 0x100000"
proof -
  have "lok BootImgHdrV4_layout sample_v4"
    by (simp add: BootImgHdrV4_layout_def BootImgHdrV3_layout_def lput_struct lput_seq sample_v4_def
        Bytes_def U32_def Array_def)
  from V4_kernel_size_reads_header_size [OF this, of "[]" "zero_dyn []"] show ?thesis
    by (auto simp: sample_v4_def hdr_v3_def)
qed

text \<open>
  \<open>DynImgVndV4.Init\<close> stores the vendor header the data begins with; its pointers and accessors read
  the fields of that header, and no other header changes.
\<close>

theorem VndV4_Init_spec:
  assumes "lok BootImgHdrVndV4_layout h"
  shows "\<exists>p. DynImgVndV4_Init (lput BootImgHdrVndV4_layout h @ rest) d =
       Inr (d\<lparr>V4Vnd := h\<rparr>, p, Vnd4_BootconfigSize h)
    \<and> vRamdiskSize p = Vnd3_RamdiskSize (Vnd4_V3 h) \<and> vHeaderSize p = Vnd3_HeaderSize (Vnd4_V3 h)
    \<and> vDtbSize p = Vnd3_DtbSize (Vnd4_V3 h) \<and> vCmdline p = Vnd3_Cmdline (Vnd4_V3 h)
    \<and> PageSize KindVndV4 (d\<lparr>V4Vnd := h\<rparr>) = Vnd3_PageSize (Vnd4_V3 h)
    \<and> VendorRamdiskTableSize (d\<lparr>V4Vnd := h\<rparr>) = Vnd4_VendorRamdiskTableSize h
    \<and> VendorRamdiskTableEntryNum (d\<lparr>V4Vnd := h\<rparr>) = Vnd4_VendorRamdiskTableEntryNum h
    \<and> VendorRamdiskTableEntrySize (d\<lparr>V4Vnd := h\<rparr>) = Vnd4_VendorRamdiskTableEntrySize h"
proof -
  have r: "read_raw BootImgHdrVndV4_layout (lput BootImgHdrVndV4_layout h @ rest) = Inr h"
    by (rule read_raw_put [OF lawful_BootImgHdrVndV4 assms])
  show ?thesis using r read_raw_embedded(4) [OF r]
    by (simp add: init_defs accessor_defs)
qed

text \<open>
  The space of a header is 0 for every kind of image, and for a vendor image with page size
  0 the division panics: \<open>DynImgHdr.HdrSpace\<close> and \<open>DynImgHdr.HdrSize\<close> are not overridden.
\<close>

theorem HdrSpace_zero:
  "HdrSpace k d = (if IsVendor k \<and> PageSize k d = 0 then Inl (Panic DivideByZero) else Inr 0)"
proof -
  have "(ucast p :: u64) = 0 \<longleftrightarrow> p = 0" for p :: u32
    by transfer (simp add: take_bit_take_bit min_def)
  moreover have "((a :: u64) - 1) div a = 0" for a
  proof (cases "a = 0")
    case False
    then have "0 < unat a" by (simp add: unat_gt_0)
    then have "unat (a - 1) < unat a" by (simp add: unat_minus_one False)
    then have "unat ((a - 1) div a) = 0" by (simp add: unat_div_distrib)
    then show ?thesis by (simp add: unat_eq_0)
  qed simp
  ultimately show ?thesis by (cases k) (simp_all add: HdrSpace_def accessor_defs align_to_def)
qed

section \<open>Types of the stored headers\<close>

text \<open>
  A header structure is well typed when its byte arrays and integer arrays have the lengths
  that the Go types fix; these are the structures that can be written and read back.
\<close>

definition hdrs_ok :: "DynImgHdr \<Rightarrow> bool" where
  "hdrs_ok d \<longleftrightarrow> lok BootImgHdrV2_layout (V2Hdr d) \<and> lok BootImgHdrV4_layout (V4Hdr d)
     \<and> lok BootImgHdrVndV4_layout (V4Vnd d) \<and> lok BootImgHdrPxa_layout (HdrPxa d)"

text \<open>
  An \<open>Init\<close> for a structure of \<open>n\<close> bytes: on less it ends the process; on more it returns, keeps the
  types, and changes only the header that \<open>own\<close> copies.
\<close>

definition typed_init ::
  "nat \<Rightarrow> (DynImgHdr \<Rightarrow> DynImgHdr \<Rightarrow> DynImgHdr) \<Rightarrow> (bytes \<Rightarrow> DynImgHdr \<Rightarrow> (DynImgHdr \<times> 'p) go) \<Rightarrow> bool" where
  "typed_init n own init \<longleftrightarrow>
     (\<forall>data d. if length data < n then init data d = Inl Fatal
       else \<exists>d' p. init data d = Inr (d', p) \<and> d' = own d' d \<and> (hdrs_ok d \<longrightarrow> hdrs_ok d'))"

lemma lok_nested:
  "lok BootImgHdrV2_layout g \<longleftrightarrow> lok BootImgHdrV1_layout (V2_V1 g)"
  "lok BootImgHdrV1_layout h \<longleftrightarrow> lok BootImgHdrV0_layout (V1_V0 h)"
  "lok BootImgHdrV4_layout f \<longleftrightarrow> lok BootImgHdrV3_layout (V4_V3 f)"
  "lok BootImgHdrVndV4_layout v \<longleftrightarrow> lok BootImgHdrVndV3_layout (Vnd4_V3 v)"
  by (simp_all add: BootImgHdrV1_layout_def BootImgHdrV2_layout_def BootImgHdrV4_layout_def BootImgHdrVndV4_layout_def
      lput_struct lput_seq U32_def U64_def)

lemma typed_initI:
  assumes "lawful l" "lwidth l = n"
    and "\<And>data d. read_raw l data = Inl Fatal \<Longrightarrow> init data d = Inl Fatal"
    and "\<And>data d x. read_raw l data = Inr x \<Longrightarrow> lok l x \<Longrightarrow>
      \<exists>d' p. init data d = Inr (d', p) \<and> d' = own d' d \<and> (hdrs_ok d \<longrightarrow> hdrs_ok d')"
  shows "typed_init n own init"
  unfolding typed_init_def
proof (intro allI)
  fix data d
  show "if length data < n then init data d = Inl Fatal
    else \<exists>d' p. init data d = Inr (d', p) \<and> d' = own d' d \<and> (hdrs_ok d \<longrightarrow> hdrs_ok d')"
  proof (cases "length data < n")
    case True
    with assms(2,3) show ?thesis by (simp add: read_raw_short)
  next
    case False
    with assms(1,2) obtain x where "read_raw l data = Inr x" "lok l x"
      using read_raw_total [of l data] by auto
    with assms(4) False show ?thesis by simp
  qed
qed

lemmas init_simps = init_defs hdr_defs hdrs_ok_def lok_nested

lemma typed_plain:
  "typed_init 1632 (\<lambda>d' d. d\<lparr>V2Hdr := V2Hdr d'\<rparr>) DynImgV0_Init"
  "typed_init 1640 (\<lambda>d' d. d\<lparr>HdrPxa := HdrPxa d'\<rparr>) DynImgPxa_Init"
  "typed_init 1580 (\<lambda>d' d. d\<lparr>V4Hdr := V4Hdr d'\<rparr>) DynImgV3_Init"
  "typed_init 2112 (\<lambda>d' d. d\<lparr>V4Vnd := V4Vnd d'\<rparr>) DynImgVndV3_Init"
  by (rule typed_initI, rule lawful_intros, rule layout_sizes, simp_all add: init_simps)+

lemma typed_embedding:
  "typed_init 1648 (\<lambda>d' d. d\<lparr>V2Hdr := V2Hdr d'\<rparr>) DynImgV1_Init"
  "typed_init 1584 (\<lambda>d' d. d\<lparr>V4Hdr := V4Hdr d'\<rparr>) DynImgV4_Init"
  "typed_init 2128 (\<lambda>d' d. d\<lparr>V4Vnd := V4Vnd d'\<rparr>) DynImgVndV4_Init"
  by (rule typed_initI, rule lawful_intros, rule layout_sizes, simp add: init_defs,
      frule read_raw_embedded, simp add: init_simps)+

lemma typed_V2: "typed_init 1660 (\<lambda>d' d. d\<lparr>V2Hdr := V2Hdr d'\<rparr>) DynImgV2_Init"
  by (rule typed_initI, rule lawful_intros, rule layout_sizes, simp add: init_defs,
      frule read_raw_embedded(2), frule read_raw_embedded(1), simp add: init_simps)

text \<open>
  C34. Every \<open>Init\<close> is total and keeps the header state well typed: it ends the process exactly on data
  shorter than its structure, otherwise it returns, the arrays of all headers keep the lengths
  of their Go types, and every header but its own is as before.
\<close>

theorem Init_typed:
  "typed_init 1632 (\<lambda>d' d. d\<lparr>V2Hdr := V2Hdr d'\<rparr>) DynImgV0_Init
   \<and> typed_init 1648 (\<lambda>d' d. d\<lparr>V2Hdr := V2Hdr d'\<rparr>) DynImgV1_Init
   \<and> typed_init 1660 (\<lambda>d' d. d\<lparr>V2Hdr := V2Hdr d'\<rparr>) DynImgV2_Init
   \<and> typed_init 1640 (\<lambda>d' d. d\<lparr>HdrPxa := HdrPxa d'\<rparr>) DynImgPxa_Init
   \<and> typed_init 1580 (\<lambda>d' d. d\<lparr>V4Hdr := V4Hdr d'\<rparr>) DynImgV3_Init
   \<and> typed_init 1584 (\<lambda>d' d. d\<lparr>V4Hdr := V4Hdr d'\<rparr>) DynImgV4_Init
   \<and> typed_init 2112 (\<lambda>d' d. d\<lparr>V4Vnd := V4Vnd d'\<rparr>) DynImgVndV3_Init
   \<and> typed_init 2128 (\<lambda>d' d. d\<lparr>V4Vnd := V4Vnd d'\<rparr>) DynImgVndV4_Init"
  by (intro conjI typed_plain typed_embedding typed_V2)

end
