(* ===== verification/Boot_Image.thy ===== *)
theory Boot_Image
  imports Boot_Views Format
begin

text \<open>
  The image object of \<open>bootimg.go\<close>: the flags, the structure \<open>BootImg\<close> and its methods, and the
  methods of \<open>DynImgHdr\<close> that print or store a header. Parsing and creating an image have no code
  yet: these methods are what they are, functions that return the image they are given. A
  pointer is an option; a pointer to a slice is an option of its bytes.
\<close>

section \<open>Flags\<close>

type_synonym bootFlag = int

definition MTK_KERNEL :: bootFlag where "MTK_KERNEL = 0"
definition MTK_RAMDISK :: bootFlag where "MTK_RAMDISK = 1"
definition CHROMEOS_FLAG :: bootFlag where "CHROMEOS_FLAG = 2"
definition DHTB_FLAG :: bootFlag where "DHTB_FLAG = 3"
definition SEANDROID_FLAG :: bootFlag where "SEANDROID_FLAG = 4"
definition LG_BUMP_FLAG :: bootFlag where "LG_BUMP_FLAG = 5"
definition SHA256_FLAG :: bootFlag where "SHA256_FLAG = 6"
definition BLOB_FLAG :: bootFlag where "BLOB_FLAG = 7"
definition NOOKHD_FLAG :: bootFlag where "NOOKHD_FLAG = 8"
definition ACCLAIM_FLAG :: bootFlag where "ACCLAIM_FLAG = 9"
definition AMONET_FLAG :: bootFlag where "AMONET_FLAG = 10"
definition AVB1_SIGNED_FLAG :: bootFlag where "AVB1_SIGNED_FLAG = 11"
definition AVB_FLAG :: bootFlag where "AVB_FLAG = 12"
definition ZIMAGE_KERNEL :: bootFlag where "ZIMAGE_KERNEL = 13"
definition BOOT_FLAGS_MAX :: bootFlag where "BOOT_FLAGS_MAX = 14"

lemmas flag_defs = MTK_KERNEL_def MTK_RAMDISK_def CHROMEOS_FLAG_def DHTB_FLAG_def SEANDROID_FLAG_def LG_BUMP_FLAG_def
  SHA256_FLAG_def BLOB_FLAG_def NOOKHD_FLAG_def ACCLAIM_FLAG_def AMONET_FLAG_def AVB1_SIGNED_FLAG_def AVB_FLAG_def
  ZIMAGE_KERNEL_def BOOT_FLAGS_MAX_def

text \<open>
  The flags are positions, not masks: combining two of them with \<open>OR\<close> gives the value of a third,
  and the first one is not seen in any combination.
\<close>

lemma flags_are_not_masks:
  "MTK_RAMDISK OR CHROMEOS_FLAG = DHTB_FLAG" "f OR MTK_KERNEL = f"
  by (simp_all add: flag_defs)

section \<open>Images\<close>

record ZInfo =
  Zi_HdrSz :: u32
  Zi_Tail :: bytes

record BootImg =
  Img_Map :: bytes
  Img_Hdr :: DynImgHdr
  Img_Flags :: bootFlag
  Img_K_fmt :: format_t
  Img_R_fmt :: format_t
  Img_E_fmt :: format_t
  Img_Payload :: bytes
  Img_Tail :: bytes
  Img_K_hdr :: "MtkHdr option"
  Img_R_hdr :: "MtkHdr option"
  Img_Z_hdr :: "ZimageHdr option"
  Img_ZInfo :: ZInfo
  Img_AvbFooter :: "AvbFooter option"
  Img_Vbmeta :: "AvbVBMetaImageHeader option"
  Img_Kernel :: "bytes option"
  Img_Ramdisk :: "bytes option"
  Img_Second :: "bytes option"
  Img_Extra :: "bytes option"
  Img_RecoveryDtbo :: "bytes option"
  Img_Dtb :: "bytes option"
  Img_Signature :: "bytes option"
  Img_VendorRamdiskTable :: "bytes option"
  Img_Bootconfig :: "bytes option"
  Img_KernelDtb :: bytes
  Img_Ignore :: bytes

definition BootImg_New :: "bytes \<Rightarrow> BootImg \<Rightarrow> BootImg" where
  "BootImg_New path b = b"

definition ParseImage :: "bytes \<Rightarrow> format_t \<Rightarrow> BootImg \<Rightarrow> BootImg" where
  "ParseImage addr t b = b"

definition CreateHdr :: "bytes \<Rightarrow> format_t \<Rightarrow> BootImg \<Rightarrow> BootImg" where
  "CreateHdr addr t b = b"

definition GetPayload :: "BootImg \<Rightarrow> bytes" where
  "GetPayload b = Img_Payload b"

definition GetTail :: "BootImg \<Rightarrow> bytes" where
  "GetTail b = Img_Tail b"

definition Verify :: "bytes \<Rightarrow> BootImg \<Rightarrow> bool" where
  "Verify cert b = False"

section \<open>Printing and storing a header\<close>

definition DynImgHdr_RawHdr :: "DynImgHdr \<Rightarrow> unit go" where
  "DynImgHdr_RawHdr d = Inl (Err NotImplemented)"

definition DynImgHdr_Print :: "DynImgHdr \<Rightarrow> DynImgHdr" where
  "DynImgHdr_Print d = d"

definition DynImgHdr_DumpHdrFile :: "DynImgHdr \<Rightarrow> DynImgHdr" where
  "DynImgHdr_DumpHdrFile d = d"

definition DynImgHdr_LoadHdrFile :: "DynImgHdr \<Rightarrow> DynImgHdr" where
  "DynImgHdr_LoadHdrFile d = d"

end
