(* ===== verification/Dtb_Split.thy ===== *)
theory Dtb_Split
  imports Layout Compress_Tool
begin

text \<open>
  The end of \<open>bootimg.go\<close>: \<open>findDtbOffset\<close>, \<open>checkFmtLg\<close>, \<open>decompress\<close>, \<open>dump\<close> and
  \<open>SplitImageDtb\<close>. Two of its loops need not end; they are partial functions whose value
  \<open>None\<close> means that the loop runs forever, and lemmas say exactly when that happens.
  \<open>fmap\<close> is the mapped file and \<open>sz\<close> its size as \<open>uint32\<close>.
\<close>

section \<open>The device tree header\<close>

record fdtHeader =
  Magis :: u32
  TotalSize :: u32
  OffDtStruct :: u32
  OffDtStrings :: u32
  OffMemRsvmap :: u32
  FdtVersion :: u32
  LastCompVersion :: u32
  BootCpuidPhys :: u32
  SizeDtStrings :: u32
  SizeDtStruct :: u32

type_synonym fdt_fields = "u32 \<times> u32 \<times> u32 \<times> u32 \<times> u32 \<times> u32 \<times> u32 \<times> u32 \<times> u32 \<times> u32"

fun mk_fdt :: "fdt_fields \<Rightarrow> fdtHeader" where
  "mk_fdt (m, t, st, ss, rs, v, lv, cpu, zs, zt) =
     \<lparr>Magis = m, TotalSize = t, OffDtStruct = st, OffDtStrings = ss, OffMemRsvmap = rs, FdtVersion = v,
      LastCompVersion = lv, BootCpuidPhys = cpu, SizeDtStrings = zs, SizeDtStruct = zt\<rparr>"

definition un_fdt :: "fdtHeader \<Rightarrow> fdt_fields" where
  "un_fdt h =
     (Magis h, TotalSize h, OffDtStruct h, OffDtStrings h, OffMemRsvmap h, FdtVersion h,
      LastCompVersion h, BootCpuidPhys h, SizeDtStrings h, SizeDtStruct h)"

definition fdtHeader_layout :: "fdtHeader layout" where
  "fdtHeader_layout =
     struct mk_fdt un_fdt
       (seq U32BE (seq U32BE (seq U32BE (seq U32BE (seq U32BE (seq U32BE (seq U32BE (seq U32BE
         (seq U32BE U32BE)))))))))"

lemma lawful_fdtHeader [lawful_intros]: "lawful fdtHeader_layout"
  unfolding fdtHeader_layout_def
proof (rule lawful_struct)
  show "lawful (seq U32BE (seq U32BE (seq U32BE (seq U32BE (seq U32BE (seq U32BE (seq U32BE (seq U32BE
         (seq U32BE U32BE)))))))))" by (intro lawful_intros)
  show "un_fdt (mk_fdt x) = x" for x by (cases x rule: mk_fdt.cases) (simp add: un_fdt_def)
  show "mk_fdt (un_fdt h) = h" for h by (simp add: un_fdt_def)
qed

lemma width_fdtHeader [simp]: "lwidth fdtHeader_layout = 40"
  by (simp add: fdtHeader_layout_def layout_widths)

lemma ok_fdtHeader [simp]: "lok fdtHeader_layout h"
  by (simp add: fdtHeader_layout_def layout_widths un_fdt_def)

definition zero_fdt :: fdtHeader where
  "zero_fdt = mk_fdt (0, 0, 0, 0, 0, 0, 0, 0, 0, 0)"

text \<open>A failing \<open>binary.Read\<close> leaves the zero value, and its error is dropped.\<close>

definition read_fdt :: "bytes \<Rightarrow> fdtHeader" where
  "read_fdt bs = (case binary_Read fdtHeader_layout bs of None \<Rightarrow> zero_fdt | Some h \<Rightarrow> h)"

definition read_tag :: "bytes \<Rightarrow> u32" where
  "read_tag bs = (case binary_Read U32BE bs of None \<Rightarrow> 0 | Some t \<Rightarrow> t)"

lemma read_fdt_put [simp]: "read_fdt (lput fdtHeader_layout h @ rest) = h"
  by (simp add: read_fdt_def binary_Read_put lawful_fdtHeader)

lemma read_fdt_short: "length bs < 40 \<Longrightarrow> read_fdt bs = zero_fdt"
  by (simp add: read_fdt_def binary_Read_None_iff [THEN iffD2] lawful_fdtHeader)

lemma read_tag_put [simp]: "read_tag (word_be 4 t @ rest) = t"
  using binary_Read_put [OF lawful_U32BE, of t rest] by (simp add: read_tag_def U32BE_def)

section \<open>Finding the device tree\<close>

text \<open>
  The tests on a candidate at offset \<open>c\<close>: accepted, rejected (\<open>continue\<close>), or the slice
  expression panics. \<open>end - curr\<close> is converted to \<open>uint32\<close>.
\<close>

definition dtb_check :: "bytes \<Rightarrow> u32 \<Rightarrow> nat \<Rightarrow> bool go" where
  "dtb_check fmap sz c =
     (let hdr = read_fdt (drop c fmap); remaining = sz - of_nat c in
      if TotalSize hdr > remaining then Inr False
      else if OffDtStruct hdr > remaining then Inr False
      else go_bind (go_slice fmap (c + unat (OffDtStruct hdr)) (length fmap)) (\<lambda>s.
        Inr (read_tag s = 1)))"

text \<open>
  Every round searches from the beginning of the file, whatever \<open>curr\<close> is; \<open>curr\<close> only
  decides whether there is another round.
\<close>

partial_function (option) find_dtb_loop :: "bytes \<Rightarrow> u32 \<Rightarrow> nat \<Rightarrow> int go option" where
  "find_dtb_loop fmap sz cur =
     (if cur < unat sz then
        (case index_of fmap DTB_MAGIC of
           None \<Rightarrow> Some (Inr (- 1))
         | Some c \<Rightarrow>
             (case dtb_check fmap sz c of
                Inl e \<Rightarrow> Some (Inl e)
              | Inr ok \<Rightarrow> if ok then Some (Inr (int c)) else find_dtb_loop fmap sz (c + 40)))
      else Some (Inr (- 1)))"

definition findDtbOffset :: "bytes \<Rightarrow> u32 \<Rightarrow> int go option" where
  "findDtbOffset fmap sz = find_dtb_loop fmap sz 0"

lemma find_dtb_stuck:
  assumes c: "index_of fmap DTB_MAGIC = Some c" "dtb_check fmap sz c = Inr False" "c + 40 < unat sz"
    and "cur < unat sz"
  shows "find_dtb_loop fmap sz cur = None"
proof (rule ccontr)
  assume "find_dtb_loop fmap sz cur \<noteq> None"
  then obtain r where "find_dtb_loop fmap sz cur = Some r" by blast
  then have "index_of fmap DTB_MAGIC = Some c \<longrightarrow> dtb_check fmap sz c = Inr False \<longrightarrow>
      c + 40 < unat sz \<longrightarrow> \<not> cur < unat sz"
    by (rule find_dtb_loop.raw_induct
          [where P = "\<lambda>m s k r. index_of m DTB_MAGIC = Some c \<longrightarrow> dtb_check m s c = Inr False \<longrightarrow>
             c + 40 < unat s \<longrightarrow> \<not> k < unat s", rotated])
      (auto, blast)
  with assms show False by blast
qed

lemma findDtbOffset_eq:
  "findDtbOffset fmap sz =
     (if sz = 0 then Some (Inr (- 1))
      else case index_of fmap DTB_MAGIC of
        None \<Rightarrow> Some (Inr (- 1))
      | Some c \<Rightarrow>
          (case dtb_check fmap sz c of
             Inl e \<Rightarrow> Some (Inl e)
           | Inr True \<Rightarrow> Some (Inr (int c))
           | Inr False \<Rightarrow> if c + 40 < unat sz then None else Some (Inr (- 1))))"
proof -
  have sz: "sz = 0 \<longleftrightarrow> \<not> 0 < unat sz" by (simp add: unat_gt_0)
  show ?thesis
  proof (cases "index_of fmap DTB_MAGIC")
    case (Some c)
    show ?thesis
    proof (cases "dtb_check fmap sz c = Inr False")
      case True
      have "find_dtb_loop fmap sz (c + 40) = (if c + 40 < unat sz then None else Some (Inr (- 1)))"
        using find_dtb_stuck [OF Some True] by (subst find_dtb_loop.simps) (simp add: Some True)
      with Some True show ?thesis
        by (simp add: findDtbOffset_def sz find_dtb_loop.simps [of fmap sz 0])
    next
      case False
      with Some show ?thesis
        by (auto simp: findDtbOffset_def sz find_dtb_loop.simps [of fmap sz 0] split: sum.splits bool.splits)
    qed
  qed (simp add: findDtbOffset_def sz find_dtb_loop.simps [of fmap sz 0])
qed

text \<open>
  C12. \<open>findDtbOffset\<close> on every input: only the first occurrence of the magic number is
  ever looked at. If it passes the tests, its offset is the result; if it fails them,
  the search never returns, unless that occurrence lies within the last 40 bytes.
\<close>

theorem findDtbOffset_spec:
  "findDtbOffset fmap sz =
     (if sz = 0 then Some (Inr (- 1))
      else case index_of fmap DTB_MAGIC of
        None \<Rightarrow> Some (Inr (- 1))
      | Some c \<Rightarrow>
          (case dtb_check fmap sz c of
             Inl e \<Rightarrow> Some (Inl e)
           | Inr True \<Rightarrow> Some (Inr (int c))
           | Inr False \<Rightarrow> if c + 40 < unat sz then None else Some (Inr (- 1))))"
  by (rule findDtbOffset_eq)

section \<open>Legacy frames with a size\<close>

text \<open>
  The loop of \<open>checkFmtLg\<close> has one exit: a block that reaches beyond the size. At the end
  of the file it goes round without reading. \<open>block_sz\<close> outlives a round.
\<close>

partial_function (option) lg_loop :: "bytes \<Rightarrow> u32 \<Rightarrow> nat \<Rightarrow> u32 \<Rightarrow> format_t option" where
  "lg_loop fmap sz off block_sz =
     (if off + 4 < unat sz then
        let block_sz = (case binary_Read U32 (drop off fmap) of None \<Rightarrow> block_sz | Some b \<Rightarrow> b);
            off = off + 4 in
        if off + unat block_sz > unat sz then Some LZ4_LG
        else lg_loop fmap sz (off + unat block_sz) block_sz
      else lg_loop fmap sz off block_sz)"

definition checkFmtLg :: "bytes \<Rightarrow> u32 \<Rightarrow> format_t go option" where
  "checkFmtLg fmap sz =
     (case CheckFmt fmap [] of
        Inl e \<Rightarrow> Some (Inl e)
      | Inr f \<Rightarrow> if f = LZ4_LEGACY then map_option Inr (lg_loop fmap sz 4 0) else Some (Inr f))"

text \<open>Whether the chain of blocks in \<open>s\<close> runs over its end.\<close>

function lg_overruns :: "bytes \<Rightarrow> bool" where
  "lg_overruns s =
     (case get_u32 s of
        None \<Rightarrow> False
      | Some (n, rest) \<Rightarrow>
          rest \<noteq> [] \<and> (length rest < unat n \<or> lg_overruns (drop (unat n) rest)))"
  by pat_completeness auto
termination
  by (relation "measure length") (auto dest: u32le.dec_consumes)

declare lg_overruns.simps [simp del]

lemma lg_loop_stuck_end:
  assumes "\<not> off + 4 < unat sz"
  shows "lg_loop fmap sz off b = None"
proof (rule ccontr)
  assume "lg_loop fmap sz off b \<noteq> None"
  then obtain r where "lg_loop fmap sz off b = Some r" by blast
  then have "off + 4 < unat sz"
    by (rule lg_loop.raw_induct [where P = "\<lambda>m s k b r. k + 4 < unat s", rotated])
      (auto split: if_splits)
  with assms show False by blast
qed

lemma lg_loop_answers: "lg_loop fmap sz off b = Some f \<Longrightarrow> f = LZ4_LG"
  by (erule lg_loop.raw_induct [where P = "\<lambda>m s k b r. r = LZ4_LG", rotated])
    (auto simp: Let_def split: if_splits)

lemma lg_loop_spec:
  assumes "unat sz = length fmap" "off \<le> length fmap"
  shows "lg_loop fmap sz off b = (if lg_overruns (drop off fmap) then Some LZ4_LG else None)"
  using assms(2)
proof (induction "drop off fmap" arbitrary: off b rule: lg_overruns.induct)
  case (1 off)
  show ?case
  proof (cases "off + 4 < unat sz")
    case False
    have "\<not> lg_overruns (drop off fmap)"
    proof
      assume "lg_overruns (drop off fmap)"
      then obtain n rest where "get_u32 (drop off fmap) = Some (n, rest)" "rest \<noteq> []"
        by (subst (asm) lg_overruns.simps) (auto split: option.splits)
      then show False using u32le.dec_consumes [of "drop off fmap" n rest] False assms(1)
        by (simp flip: length_greater_0_conv)
    qed
    with lg_loop_stuck_end [OF False] show ?thesis by simp
  next
    case True
    then have "4 \<le> length (drop off fmap)" using assms(1) by simp
    from u32le.dec_total [OF this] obtain n rest where n: "get_u32 (drop off fmap) = Some (n, rest)" by auto
    have rest: "rest = drop (off + 4) fmap"
      using u32le.dec_rest [OF n] by (simp add: add.commute)
    have ne: "rest \<noteq> []" using True assms(1) rest by simp
    have rd: "binary_Read U32 (drop off fmap) = Some n"
      by (simp add: binary_Read_def U32_def n)
    show ?thesis
    proof (cases "length rest < unat n")
      case over: True
      then show ?thesis using True rest assms(1)
        by (subst lg_loop.simps, subst lg_overruns.simps) (auto simp add: rd n ne Let_def)
    next
      case False
      have "lg_loop fmap sz (off + 4 + unat n) n =
          (if lg_overruns (drop (off + 4 + unat n) fmap) then Some LZ4_LG else None)"
        using 1 n ne False rest True assms(1) by (intro "1.hyps" [of "(n, rest)" n rest]) (auto simp: add_ac)
      then show ?thesis using True rest assms(1) False
        by (subst lg_loop.simps, subst lg_overruns.simps) (auto simp add: rd n ne add_ac Let_def)
    qed
  qed
qed

lemma CheckFmt_ge8: "CheckFmt fmap [] = Inr f \<Longrightarrow> 8 \<le> length fmap"
  by (auto simp: CheckFmt_def checked_match_def go_bind_Inr_iff go_slice_Inr_iff CHROMEOS_MAGIC_def)

lemma lg_overruns_legacy:
  "legacy_read unblock s = Some ds \<Longrightarrow> \<not> lg_overruns t \<Longrightarrow> \<not> lg_overruns (s @ t)"
proof (induction unblock s arbitrary: ds rule: legacy_read.induct)
  case (1 unblock s)
  show ?case
  proof (cases "s = []")
    case False
    with 1(2) obtain n rest ds' where n: "get_u32 s = Some (n, rest)" "unat n \<le> length rest"
        "legacy_read unblock (drop (unat n) rest) = Some ds'"
      by (subst (asm) legacy_read.simps) (auto split: option.splits if_splits)
    have "get_u32 (s @ t) = Some (n, rest @ t)"
      using u32le.dec_sound [OF n(1)] by simp
    moreover have "\<not> lg_overruns (drop (unat n) rest @ t)"
      using 1(1) [OF False n(1)] n 1(3) by fastforce
    ultimately show ?thesis
      using n(2) by (subst lg_overruns.simps) simp
  qed (use 1 in simp)
qed

lemma lg_overruns_word: "\<not> lg_overruns (put_u32 n)"
  using u32le.dec_exact [of n] by (subst lg_overruns.simps) simp

lemma lg_overruns_Nil: "\<not> lg_overruns []"
  using u32le.dec_None_iff [of "[]"] by (subst lg_overruns.simps) simp

lemma CheckFmt_legacy:
  assumes "4 \<le> length r"
  shows "CheckFmt (LZ4_LEG_MAGIC @ r) [] = Inr LZ4_LEGACY"
  using assms by (intro CheckFmt_detected) (simp_all add: detected_def starts_as_def magic_table_def LZ4_LEG_MAGIC_def)

lemma checkFmtLg_eq:
  assumes "unat sz = length fmap"
  shows "checkFmtLg fmap sz =
     (case CheckFmt fmap [] of
        Inl e \<Rightarrow> Some (Inl e)
      | Inr f \<Rightarrow>
          if f = LZ4_LEGACY then (if lg_overruns (drop 4 fmap) then Some (Inr LZ4_LG) else None)
          else Some (Inr f))"
proof (cases "CheckFmt fmap []")
  case (Inr f)
  from CheckFmt_ge8 [OF Inr] have "4 \<le> length fmap" by simp
  from lg_loop_spec [OF assms this] show ?thesis by (simp add: checkFmtLg_def Inr)
qed (simp add: checkFmtLg_def)

text \<open>
  C26. \<open>checkFmtLg\<close> on every file below 4 GiB: a format other than the legacy one is passed on;
  for a legacy frame the only answer is \<open>LZ4_LG\<close>, given when a block size runs over the end of
  the file, and otherwise the function never returns.
\<close>

theorem checkFmtLg_spec:
  assumes "unat sz = length fmap"
  shows "checkFmtLg fmap sz =
     (case CheckFmt fmap [] of
        Inl e \<Rightarrow> Some (Inl e)
      | Inr f \<Rightarrow>
          if f = LZ4_LEGACY then (if lg_overruns (drop 4 fmap) then Some (Inr LZ4_LG) else None)
          else Some (Inr f))"
  by (rule checkFmtLg_eq [OF assms])

lemma DTB_MAGIC_le: "DTB_MAGIC = put_u32 0xedfe0dd0"
  unfolding DTB_MAGIC_def by code_simp

theorem checkFmtLg_spec_witness:
  "checkFmtLg (LZ4_LEG_MAGIC @ put_u32 2 @ [9, 9] @ DTB_MAGIC @ [0]) 15 = Some (Inr LZ4_LG)
   \<and> checkFmtLg (LZ4_LEG_MAGIC @ put_u32 2 @ [9, 9]) 10 = None"
proof -
  let ?a = "LZ4_LEG_MAGIC @ put_u32 2 @ [9, 9] @ DTB_MAGIC @ [0]" and ?b = "LZ4_LEG_MAGIC @ put_u32 2 @ [9, 9]"
  have "CheckFmt ?a [] = Inr LZ4_LEGACY" "CheckFmt ?b [] = Inr LZ4_LEGACY"
    by (simp_all add: CheckFmt_legacy)
  moreover have "lg_overruns (put_u32 0xedfe0dd0 @ [0])"
    by (subst lg_overruns.simps) simp
  then have "lg_overruns (drop 4 ?a)"
    by (simp add: LZ4_LEG_MAGIC_def DTB_MAGIC_le) (subst lg_overruns.simps, simp)
  moreover have "\<not> lg_overruns (drop 4 ?b)"
    by (simp add: LZ4_LEG_MAGIC_def) (subst lg_overruns.simps, simp add: lg_overruns_Nil)
  moreover have "unat (15 :: u32) = length ?a" "unat (10 :: u32) = length ?b"
    by (simp_all add: LZ4_LEG_MAGIC_def DTB_MAGIC_def)
  ultimately show ?thesis
    using checkFmtLg_spec [of 15 ?a] checkFmtLg_spec [of 10 ?b] by simp
qed

text \<open>
  C27. \<open>checkFmtLg\<close> never returns on a file the program's own LZ4 legacy encoders wrote, with or
  without the size at the end: the chain of blocks ends at the end of the file, where the
  loop goes round without advancing.
\<close>

theorem checkFmtLg_own_output_hangs:
  assumes "\<forall>d \<in> set ws. block_ok cs unblock d"
    and "run_encoder cs (if big then LZ4_LG else LZ4_LEGACY) ws = (out, Inr ())"
    and "8 \<le> length out" "length out < 2 ^ 32"
  shows "checkFmtLg out (of_nat (length out)) = None"
proof -
  from Lz4HC_writes_spec [OF assms(1), of "NewLz4HCWriter big"] obtain frame where
    w: "Lz4HC_writes cs (NewLz4HCWriter big) ws =
      ((NewLz4HCWriter big)\<lparr>sink := LZ4_LEG_MAGIC @ frame, in_total := of_nat (length (concat ws))\<rparr>, Inr ())"
    and r: "legacy_read unblock frame = Some (concat ws)"
    by (auto simp: NewLz4HCWriter_def LZ4_LEG_MAGIC_def)
  define t where "t = (if big then put_u32 (of_nat (length (concat ws)) :: u32) else [])"
  have out: "out = LZ4_LEG_MAGIC @ frame @ t"
    using w assms(2) by (cases big) (auto simp: t_def run_encoder_def Lz4HC_Close_def NewLz4HCWriter_def)
  have len: "length LZ4_LEG_MAGIC = 4" by (simp add: LZ4_LEG_MAGIC_def)
  have "CheckFmt out [] = Inr LZ4_LEGACY"
    unfolding out by (rule CheckFmt_legacy) (use assms(3) out len in simp)
  moreover have "\<not> lg_overruns (drop 4 out)"
    using lg_overruns_legacy [OF r, of t] lg_overruns_word lg_overruns_Nil by (simp add: out len t_def)
  moreover have "unat (of_nat (length out) :: u32) = length out"
    by (rule unat_of_nat_small) (use assms(4) in simp)
  then have "lg_loop out (of_nat (length out)) 4 0 = (if lg_overruns (drop 4 out) then Some LZ4_LG else None)"
    by (rule lg_loop_spec) (use assms(3) in simp)
  ultimately show ?thesis by (simp add: checkFmtLg_def)
qed

theorem checkFmtLg_own_output_hangs_witness:
  "checkFmtLg (fst (run_encoder store_codecs LZ4_LG [str ''ab''])) 15 = None"
proof -
  let ?out = "LZ4_LEG_MAGIC @ put_u32 3 @ (0 # str ''ab'') @ put_u32 2"
  have e: "run_encoder store_codecs (if True then LZ4_LG else LZ4_LEGACY) [str ''ab''] = (?out, Inr ())"
    by (simp add: run_encoder_def Lz4HC_Write_def Lz4HC_Close_def NewLz4HCWriter_def store_codecs_def
        LZ4_LEG_MAGIC_def)
  have "\<forall>d \<in> set [str ''ab'']. block_ok store_codecs (\<lambda>c. Some (tl c)) d"
    by (simp add: block_ok_def store_codecs_def)
  from checkFmtLg_own_output_hangs [OF this e] e show ?thesis
    by (simp add: LZ4_LEG_MAGIC_def)
qed

section \<open>Splitting\<close>

definition KERNEL_FILE :: bytes where
  "KERNEL_FILE = str ''kernel''"

definition KER_DTB_FILE :: bytes where
  "KER_DTB_FILE = str ''kernel_dtb''"

lemma split_names_differ [simp]: "KERNEL_FILE \<noteq> KER_DTB_FILE" "KER_DTB_FILE \<noteq> KERNEL_FILE"
  by (simp_all add: KERNEL_FILE_def KER_DTB_FILE_def str_def)

text \<open>
  \<open>decompress\<close> copies what the decoder delivers; the error of \<open>io.Copy\<close> is dropped, that of
  the constructor ends the process. \<open>dump\<close> writes at most \<open>size\<close> bytes of \<open>buf\<close>.
\<close>

definition decompress :: "codecs \<Rightarrow> format_t \<Rightarrow> bytes \<Rightarrow> bytes go" where
  "decompress cs t s =
     (case NewDecoder t of
        None \<Rightarrow> Inl (Panic NilDereference)
      | Some l \<Rightarrow> (case lib_dec cs l s of None \<Rightarrow> Inl Fatal | Some (d, _) \<Rightarrow> Inr d))"

text \<open>
  The bytes come from a mapping of the file \<open>mapped\<close>. When that is the file being created,
  \<open>os.Create\<close> has just cut it to length 0 under the mapping: the first byte read of it is a
  fault, with which the Go runtime ends the process. Two names are the same file when they are
  equal.
\<close>

definition read_mapped :: "bytes \<Rightarrow> bytes \<Rightarrow> bytes \<Rightarrow> bytes go" where
  "read_mapped mapped created bs = (if mapped = created \<and> bs \<noteq> [] then Inl (Panic MappingFault) else Inr bs)"

definition dump :: "io \<Rightarrow> bytes \<Rightarrow> bytes \<Rightarrow> int \<Rightarrow> bytes \<Rightarrow> io \<times> unit go" where
  "dump w mapped buf n filename =
     (if n = 0 then (w, Inr ())
      else case os_Create filename w of
        Inl e \<Rightarrow> (w, Inl e)
      | Inr (w1, fd) \<Rightarrow>
          (case read_mapped mapped filename (take (nat n) buf) of
             Inl e \<Rightarrow> (w1, Inl e)
           | Inr bs \<Rightarrow> (put_out fd bs w1, Inr ())))"

definition decompress_kernel :: "codecs \<Rightarrow> io \<Rightarrow> bytes \<Rightarrow> format_t \<Rightarrow> bytes \<Rightarrow> io \<times> unit go" where
  "decompress_kernel cs w mapped f s =
     (case os_Create KERNEL_FILE w of
        Inl e \<Rightarrow> (w, Inl e)
      | Inr (w1, fd) \<Rightarrow>
          (case go_bind (read_mapped mapped KERNEL_FILE s) (decompress cs f) of
             Inl e \<Rightarrow> (w1, Inl e)
           | Inr d \<Rightarrow> (put_out fd d w1, Inr ())))"

text \<open>
  The result is the files afterwards and the exit status; \<open>None\<close> when a loop never ends. The
  searches run before anything is created, on the intact mapping.
\<close>

definition SplitImageDtb ::
    "codecs \<Rightarrow> (bytes \<Rightarrow> bytes option) \<Rightarrow> io \<Rightarrow> bytes \<Rightarrow> bool \<Rightarrow> (io \<times> int go) option" where
  "SplitImageDtb cs mmap w filename skip_decomp =
     (case Files w filename of
        None \<Rightarrow> Some (w, Inl Fatal)
      | Some content \<Rightarrow>
          (case mmap content of
             None \<Rightarrow> Some (w, Inl Fatal)
           | Some fmap \<Rightarrow>
               let img_sz = (of_nat (length content) :: u32) in
               (case findDtbOffset fmap img_sz of
                  None \<Rightarrow> None
                | Some (Inl e) \<Rightarrow> Some (w, Inl e)
                | Some (Inr off) \<Rightarrow>
                    if off > 0 then
                      (case checkFmtLg fmap img_sz of
                         None \<Rightarrow> None
                       | Some (Inl e) \<Rightarrow> Some (w, Inl e)
                       | Some (Inr f) \<Rightarrow>
                           (case (if \<not> skip_decomp \<and> COMPRESSED f
                                  then decompress_kernel cs w filename f (drop (nat off) fmap)
                                  else dump w filename fmap off KERNEL_FILE) of
                              (w1, Inl e) \<Rightarrow> Some (w1, Inl e)
                            | (w1, Inr _) \<Rightarrow>
                                (case dump w1 filename (drop (nat off) fmap) (int (unat img_sz) - off) KER_DTB_FILE of
                                   (w2, Inl e) \<Rightarrow> Some (w2, Inl e)
                                 | (w2, Inr _) \<Rightarrow> Some (w2, Inr 0))))
                    else Some (w, Inr 1))))"

text \<open>
  The images that \<open>SplitImageDtb\<close> never finishes with: the first magic number belongs to no device
  tree, or a device tree follows a legacy frame whose blocks end with the file.
\<close>

definition split_hangs :: "bytes \<Rightarrow> bool" where
  "split_hangs img \<longleftrightarrow>
     (case index_of img DTB_MAGIC of
        None \<Rightarrow> False
      | Some c \<Rightarrow>
          (case dtb_check img (of_nat (length img)) c of
             Inl e \<Rightarrow> False
           | Inr ok \<Rightarrow>
               if ok then 0 < c \<and> CheckFmt img [] = Inr LZ4_LEGACY \<and> \<not> lg_overruns (drop 4 img)
               else c + 40 < length img))"

lemma SplitImageDtb_hangs_iff:
  assumes "Files w name = Some img" "mmap img = Some img" "length img < 2 ^ 32"
  shows "SplitImageDtb cs mmap w name skip = None \<longleftrightarrow> split_hangs img"
proof -
  let ?sz = "of_nat (length img) :: u32"
  have n: "unat ?sz = length img" by (rule unat_of_nat_small) (use assms(3) in simp)
  have z: "index_of img DTB_MAGIC = Some c \<Longrightarrow> ?sz \<noteq> 0" for c
    using index_of_Some_prefix [of img DTB_MAGIC c] has_prefix_length [of "drop c img" DTB_MAGIC] n
    by (auto simp: DTB_MAGIC_def)
  have c: "checkFmtLg img ?sz = None \<longleftrightarrow> CheckFmt img [] = Inr LZ4_LEGACY \<and> \<not> lg_overruns (drop 4 img)"
    unfolding checkFmtLg_eq [OF n] by (auto split: sum.splits)
  have "SplitImageDtb cs mmap w name skip = None \<longleftrightarrow>
      findDtbOffset img ?sz = None \<or> (\<exists>off > 0. findDtbOffset img ?sz = Some (Inr off) \<and> checkFmtLg img ?sz = None)"
    unfolding SplitImageDtb_def assms(1) option.case assms(2) Let_def
    by (auto split: option.splits sum.splits prod.splits)
  also have "\<dots> \<longleftrightarrow> split_hangs img"
    unfolding findDtbOffset_eq split_hangs_def c n using z by (auto split: option.splits sum.splits bool.splits)
  finally show ?thesis .
qed

text \<open>A device tree whose header fits its own length and points to a node.\<close>

definition valid_dtb :: "bytes \<Rightarrow> bool" where
  "valid_dtb d \<longleftrightarrow>
     unat (TotalSize (read_fdt d)) \<le> length d \<and> unat (OffDtStruct (read_fdt d)) \<le> length d
     \<and> read_tag (drop (unat (OffDtStruct (read_fdt d))) d) = 1"

lemma dtb_check_valid:
  assumes "valid_dtb d" "length (k @ d) < 2 ^ 32"
  shows "dtb_check (k @ d) (of_nat (length (k @ d))) (length k) = Inr True"
proof -
  have r: "of_nat (length (k @ d)) - of_nat (length k) = (of_nat (length d) :: u32)"
    by simp
  have n: "unat (of_nat (length d) :: u32) = length d"
    by (rule unat_of_nat_small) (use assms(2) in simp)
  have "\<not> x > of_nat (length d)" if "unat x \<le> length d" for x :: u32
    using that n by (simp add: word_less_nat_alt)
  with assms(1) show ?thesis
    unfolding dtb_check_def r valid_dtb_def by (simp add: Let_def go_slice_def)
qed

lemma findDtbOffset_first:
  assumes "valid_dtb d" "length (k @ d) < 2 ^ 32" "index_of (k @ d) DTB_MAGIC = Some (length k)"
  shows "findDtbOffset (k @ d) (of_nat (length (k @ d))) = Some (Inr (int (length k)))"
proof -
  have "d \<noteq> []" using index_of_Some_prefix [OF assms(3)] by (auto simp: DTB_MAGIC_def)
  then have "0 < unat (of_nat (length (k @ d)) :: u32)"
    using assms(2) by (subst unat_of_nat_small) simp_all
  then show ?thesis
    unfolding findDtbOffset_def
    by (subst find_dtb_loop.simps) (simp only: assms(3) dtb_check_valid [OF assms(1,2)] if_True option.case sum.case)
qed

lemma SplitImageDtb_found:
  assumes "Files w name = Some (k @ d)" "mmap (k @ d) = Some (k @ d)"
    and "k \<noteq> []" "length (k @ d) < 2 ^ 32" "valid_dtb d" "index_of (k @ d) DTB_MAGIC = Some (length k)"
    and "checkFmtLg (k @ d) (of_nat (length (k @ d))) = Some (Inr f)"
  shows "SplitImageDtb cs mmap w name skip =
    (case (if \<not> skip \<and> COMPRESSED f then decompress_kernel cs w name f d else dump w name (k @ d) (int (length k)) KERNEL_FILE) of
       (w1, Inl e) \<Rightarrow> Some (w1, Inl e)
     | (w1, Inr _) \<Rightarrow>
         (case dump w1 name d (int (length d)) KER_DTB_FILE of
            (w2, Inl e) \<Rightarrow> Some (w2, Inl e)
          | (w2, Inr _) \<Rightarrow> Some (w2, Inr 0)))"
proof -
  have n: "unat (of_nat (length (k @ d)) :: u32) = length (k @ d)"
    by (rule unat_of_nat_small) (use assms(4) in simp)
  have "int (length k) > 0" using assms(3) by simp
  then show ?thesis
    unfolding SplitImageDtb_def assms(1) option.case assms(2) Let_def findDtbOffset_first [OF assms(5,4,6)]
      sum.case assms(7) n
    by simp
qed

lemma dump_creates:
  "CanCreate w f \<Longrightarrow> mapped \<noteq> f \<Longrightarrow> 0 < n \<Longrightarrow>
   dump w mapped buf (int n) f = (w\<lparr>Files := (Files w)(f \<mapsto> take n buf)\<rparr>, Inr ())"
  by (simp add: dump_def os_Create_def read_mapped_def)

text \<open>
  C11. Splitting an image that is a kernel followed by a device tree, where the magic number of the
  tree occurs first at its start and the image is either not compressed or split with
  \<open>-n\<close>, and its file is not itself named \<open>kernel\<close> or \<open>kernel_dtb\<close>: exactly the two files \<open>kernel\<close> and \<open>kernel_dtb\<close> change, they get the two parts of
  the image, and the exit status is 0.
\<close>

theorem SplitImageDtb_exact:
  assumes "Files w name = Some (k @ d)" "mmap (k @ d) = Some (k @ d)"
    and "k \<noteq> []" "length (k @ d) < 2 ^ 32" "valid_dtb d" "index_of (k @ d) DTB_MAGIC = Some (length k)"
    and "checkFmtLg (k @ d) (of_nat (length (k @ d))) = Some (Inr f)"
    and "skip \<or> \<not> COMPRESSED f" "CanCreate w KERNEL_FILE" "CanCreate w KER_DTB_FILE"
    and "name \<noteq> KERNEL_FILE" "name \<noteq> KER_DTB_FILE"
  shows "SplitImageDtb cs mmap w name skip =
     Some (w\<lparr>Files := (Files w)(KERNEL_FILE \<mapsto> k, KER_DTB_FILE \<mapsto> d)\<rparr>, Inr 0)"
proof -
  have "0 < length d" using index_of_Some_prefix [OF assms(6)] by (auto simp: DTB_MAGIC_def)
  with assms(3,8-12) show ?thesis
    by (subst SplitImageDtb_found [where mmap = mmap and w = w and name = name and k = k and d = d, OF assms(1-7)]) (auto simp: dump_creates)
qed

text \<open>A small device tree and files to split.\<close>

definition sample_dtb :: bytes where
  "sample_dtb = DTB_MAGIC @ [0, 0, 0, 44, 0, 0, 0, 40, 0, 0, 0, 0, 0, 0, 0, 0, 0, 0, 0, 0, 0, 0, 0, 0, 0, 0, 0, 0,
     0, 0, 0, 0, 0, 0, 0, 0, 0, 0, 0, 1]"

definition sample_fdt :: fdtHeader where
  "sample_fdt = mk_fdt (0xd00dfeed, 44, 40, 0, 0, 0, 0, 0, 0, 0)"

lemma sample_dtb_eq: "sample_dtb = lput fdtHeader_layout sample_fdt @ word_be 4 (1 :: u32)"
  by code_simp

lemma sample_dtb_length: "length sample_dtb = 44"
  by (simp add: sample_dtb_def DTB_MAGIC_def)

lemma read_fdt_sample: "read_fdt sample_dtb = sample_fdt"
  unfolding sample_dtb_eq by (rule read_fdt_put)

lemma valid_sample_dtb: "valid_dtb sample_dtb"
proof -
  have "drop 40 sample_dtb = word_be 4 (1 :: u32) @ []" by code_simp
  then have "read_tag (drop 40 sample_dtb) = 1" by (simp only: read_tag_put)
  then show ?thesis
    by (simp add: valid_dtb_def read_fdt_sample sample_fdt_def sample_dtb_length)
qed

definition split_io :: "bytes \<Rightarrow> io" where
  "split_io img = \<lparr>Files = [str ''img'' \<mapsto> img], CanCreate = \<lambda>_. True, Stdin = [], StdinSeeks = False, Stdout = []\<rparr>"

theorem SplitImageDtb_exact_witness:
  "SplitImageDtb store_codecs Some (split_io (str ''kernel-code'' @ sample_dtb)) (str ''img'') False =
     Some ((split_io (str ''kernel-code'' @ sample_dtb))
       \<lparr>Files := [str ''img'' \<mapsto> str ''kernel-code'' @ sample_dtb,
          KERNEL_FILE \<mapsto> str ''kernel-code'', KER_DTB_FILE \<mapsto> sample_dtb]\<rparr>, Inr 0)"
proof -
  let ?k = "str ''kernel-code''" and ?d = sample_dtb
  have i: "index_of (?k @ ?d) DTB_MAGIC = Some (length ?k)" by code_simp
  have "CheckFmt (?k @ ?d) [] = Inr UNKNOWN" by code_simp
  then have f: "checkFmtLg (?k @ ?d) (of_nat (length (?k @ ?d))) = Some (Inr UNKNOWN)"
    by (simp add: checkFmtLg_def)
  have "Files (split_io (?k @ ?d)) (str ''img'') = Some (?k @ ?d)" "?k \<noteq> []" "length (?k @ ?d) < 2 ^ 32"
    "str ''img'' \<noteq> KERNEL_FILE" "str ''img'' \<noteq> KER_DTB_FILE"
    by (simp_all add: split_io_def sample_dtb_length KERNEL_FILE_def KER_DTB_FILE_def str_def)
  from SplitImageDtb_exact [where mmap = Some and skip = False, OF this(1) refl this(2,3) valid_sample_dtb i f _ _ _ this(4,5)]
  show ?thesis by (simp add: COMPRESSED_iff split_io_def)
qed

text \<open>
  C28. Splitting a compressed image without \<open>-n\<close> does not decompress the kernel: the decoder of
  the kernel's format is run on the device tree. Either it refuses it, and the process
  ends with an empty \<open>kernel\<close>, or \<open>kernel\<close> holds what it makes of the tree; the bytes of the
  kernel are not used. (The file split is not itself named \<open>kernel\<close> or \<open>kernel_dtb\<close>.)
\<close>

theorem SplitImageDtb_compressed_wrong:
  assumes "Files w name = Some (k @ d)" "mmap (k @ d) = Some (k @ d)"
    and "k \<noteq> []" "length (k @ d) < 2 ^ 32" "valid_dtb d" "index_of (k @ d) DTB_MAGIC = Some (length k)"
    and "checkFmtLg (k @ d) (of_nat (length (k @ d))) = Some (Inr f)"
    and "COMPRESSED f" "CanCreate w KERNEL_FILE" "CanCreate w KER_DTB_FILE"
    and "name \<noteq> KERNEL_FILE" "name \<noteq> KER_DTB_FILE"
  shows "SplitImageDtb cs mmap w name False =
     Some (case lib_dec cs (the (NewDecoder f)) d of
       None \<Rightarrow> (w\<lparr>Files := (Files w)(KERNEL_FILE \<mapsto> [])\<rparr>, Inl Fatal)
     | Some (junk, _) \<Rightarrow> (w\<lparr>Files := (Files w)(KERNEL_FILE \<mapsto> junk, KER_DTB_FILE \<mapsto> d)\<rparr>, Inr 0))"
proof -
  have "0 < length d" using index_of_Some_prefix [OF assms(6)] by (auto simp: DTB_MAGIC_def)
  moreover obtain l where "NewDecoder f = Some l"
    using assms(8) by (auto simp: COMPRESSED_iff)
  ultimately show ?thesis using assms(8-12)
    by (subst SplitImageDtb_found [where mmap = mmap and w = w and name = name and k = k and d = d, OF assms(1-7)])
      (auto simp: dump_creates decompress_kernel_def read_mapped_def decompress_def os_Create_def split: option.splits)
qed

theorem SplitImageDtb_compressed_wrong_witness:
  "SplitImageDtb store_codecs Some (split_io (GZIP1_MAGIC @ str ''zipped'' @ sample_dtb)) (str ''img'') False =
     Some ((split_io (GZIP1_MAGIC @ str ''zipped'' @ sample_dtb))
       \<lparr>Files := [str ''img'' \<mapsto> GZIP1_MAGIC @ str ''zipped'' @ sample_dtb, KERNEL_FILE \<mapsto> []]\<rparr>, Inl Fatal)"
proof -
  let ?k = "GZIP1_MAGIC @ str ''zipped''" and ?d = sample_dtb
  have i: "index_of (?k @ ?d) DTB_MAGIC = Some (length ?k)" by code_simp
  have "CheckFmt (?k @ ?d) [] = Inr GZIP" by code_simp
  then have f: "checkFmtLg (?k @ ?d) (of_nat (length (?k @ ?d))) = Some (Inr GZIP)"
    by (simp add: checkFmtLg_def)
  have r: "lib_dec store_codecs LibGzip ?d = None"
    by (simp add: store_codecs_def sample_dtb_def DTB_MAGIC_def GZIP1_MAGIC_def)
  have "Files (split_io (?k @ ?d)) (str ''img'') = Some (?k @ ?d)" "?k \<noteq> []" "length (?k @ ?d) < 2 ^ 32"
    "str ''img'' \<noteq> KERNEL_FILE" "str ''img'' \<noteq> KER_DTB_FILE"
    by (simp_all add: split_io_def sample_dtb_length GZIP1_MAGIC_def KERNEL_FILE_def KER_DTB_FILE_def str_def)
  from SplitImageDtb_compressed_wrong [where mmap = Some, OF this(1) refl this(2,3) valid_sample_dtb i f _ _ _ this(4,5)]
  show ?thesis by (simp add: COMPRESSED_iff split_io_def r)
qed

text \<open>
  Splitting such an image when its own file is named \<open>kernel\<close>: the file is emptied and the process
  dies of the fault.
\<close>

theorem SplitImageDtb_own_kernel:
  assumes "Files w KERNEL_FILE = Some (k @ d)" "mmap (k @ d) = Some (k @ d)"
    and "k \<noteq> []" "length (k @ d) < 2 ^ 32" "valid_dtb d" "index_of (k @ d) DTB_MAGIC = Some (length k)"
    and "checkFmtLg (k @ d) (of_nat (length (k @ d))) = Some (Inr f)" "CanCreate w KERNEL_FILE"
  shows "SplitImageDtb cs mmap w KERNEL_FILE skip =
     Some (w\<lparr>Files := (Files w)(KERNEL_FILE \<mapsto> [])\<rparr>, Inl (Panic MappingFault))"
proof -
  have "d \<noteq> []" using index_of_Some_prefix [OF assms(6)] by (auto simp: DTB_MAGIC_def)
  with assms(3,8) show ?thesis
    by (subst SplitImageDtb_found [where mmap = mmap and w = w and k = k and d = d, OF assms(1-7)])
      (auto simp: dump_def decompress_kernel_def read_mapped_def os_Create_def)
qed

end
