(* ===== verification/Payload.thy ===== *)
theory Payload
  imports Layout Compress_Tool "HOL-Library.Multiset"
begin

text \<open>
  \<open>payload.go\<close>: extraction of a partition from an OTA payload. The generated decoder of the
  manifest, the order \<open>sort.Slice\<close> gives to operations with equal offsets, and the limits of
  the machine are parameters, collected in \<open>payload_env\<close>. The getters of the generated code
  return 0 for absent fields; the records hold what the getters return.
\<close>

section \<open>The manifest\<close>

datatype op_type = REPLACE | REPLACE_BZ | REPLACE_XZ | ZERO | OtherType int

record Extent =
  StartBlock :: u64
  NumBlocks :: u64

record InstallOperation =
  OpType :: op_type
  DataOffset :: u64
  DataLength :: u64
  DstExtents :: "Extent list"

record PartitionUpdate =
  PartitionName :: bytes
  Operations :: "InstallOperation list"

record DeltaArchiveManifest =
  Partitions :: "PartitionUpdate list"
  BlockSize :: u32
  MinorVersion :: u32

text \<open>
  \<open>read_max\<close> bounds what one \<open>Read\<close> returns, \<open>max_seek\<close> the offsets \<open>lseek\<close> accepts and
  \<open>max_alloc\<close> the length of a slice \<open>make\<close> can build.
\<close>

record payload_env =
  unmarshal :: "bytes \<Rightarrow> DeltaArchiveManifest option"
  sort_ops :: "InstallOperation list \<Rightarrow> InstallOperation list"
  read_max :: nat
  max_seek :: int
  max_alloc :: nat

section \<open>The input and the output file\<close>

record source =
  src_data :: bytes
  src_pos :: nat
  src_seeks :: bool

text \<open>\<open>Read\<close> into a fresh buffer of \<open>n\<close> bytes: the buffer and whether it reported the end.\<close>

definition src_read :: "payload_env \<Rightarrow> nat \<Rightarrow> source \<Rightarrow> bytes \<times> bool \<times> source" where
  "src_read env n s =
     (let got = take (min n (read_max env)) (drop (src_pos s) (src_data s)) in
      (got @ replicate (n - length got) 0, 0 < n \<and> got = [], s\<lparr>src_pos := src_pos s + length got\<rparr>))"

text \<open>\<open>binary.Read\<close> into a variable that is zero: it stays so when the input ends early.\<close>

definition src_read_int :: "nat \<Rightarrow> source \<Rightarrow> 'a::len word \<times> source" where
  "src_read_int n s =
     (let got = take n (drop (src_pos s) (src_data s)) in
      (if length got = n then be_word got else 0, s\<lparr>src_pos := src_pos s + length got\<rparr>))"

text \<open>A seek that fails leaves the position; its error is dropped.\<close>

definition src_skip :: "payload_env \<Rightarrow> u64 \<Rightarrow> source \<Rightarrow> source" where
  "src_skip env n s =
     (let p = int (src_pos s) + sint n in
      if src_seeks s \<and> 0 \<le> p \<and> p \<le> max_seek env then s\<lparr>src_pos := nat p\<rparr> else s)"

record dest =
  dst_data :: bytes
  dst_pos :: nat

definition write_at :: "nat \<Rightarrow> bytes \<Rightarrow> bytes \<Rightarrow> bytes" where
  "write_at p bs f =
     (if bs = [] then f
      else take p f @ replicate (p - length f) 0 @ bs @ drop (p + length bs) f)"

definition dst_seek :: "payload_env \<Rightarrow> u64 \<Rightarrow> dest \<Rightarrow> dest" where
  "dst_seek env n d =
     (if 0 \<le> sint n \<and> sint n \<le> max_seek env then d\<lparr>dst_pos := nat (sint n)\<rparr> else d)"

definition dst_write :: "bytes \<Rightarrow> dest \<Rightarrow> dest" where
  "dst_write bs d = d\<lparr>dst_data := write_at (dst_pos d) bs (dst_data d), dst_pos := dst_pos d + length bs\<rparr>"

definition go_make :: "payload_env \<Rightarrow> u64 \<Rightarrow> nat go" where
  "go_make env n = (if unat n \<le> max_alloc env then Inr (unat n) else Inl (Panic MakeOutOfRange))"

section \<open>The partition\<close>

definition named :: "bytes \<Rightarrow> PartitionUpdate \<Rightarrow> bool" where
  "named n p \<longleftrightarrow> PartitionName p = n"

text \<open>
  Without a name the loops keep the last \<open>init_boot\<close>, or else the last \<open>boot\<close>; with a name
  the first match is taken.
\<close>

definition last_named :: "bytes \<Rightarrow> PartitionUpdate list \<Rightarrow> PartitionUpdate option" where
  "last_named n ps = foldl (\<lambda>b p. if named n p then Some p else b) None ps"

definition select_partition :: "bytes \<Rightarrow> DeltaArchiveManifest \<Rightarrow> PartitionUpdate go" where
  "select_partition partition_name m =
     (if partition_name = [] then
        let boot = last_named (str ''init_boot'') (Partitions m);
            boot = (case boot of None \<Rightarrow> last_named (str ''boot'') (Partitions m) | Some b \<Rightarrow> Some b)
        in case boot of None \<Rightarrow> Inl Fatal | Some b \<Rightarrow> Inr b
      else case List.find (named partition_name) (Partitions m) of
        None \<Rightarrow> Inl Fatal
      | Some p \<Rightarrow> Inr p)"

section \<open>Operations\<close>

definition BadLength :: go_error where "BadLength = BadPayload (str ''data length not found'')"
definition BadOffset :: go_error where "BadOffset = BadPayload (str ''data offset not found'')"
definition BadType :: go_error where "BadType = BadPayload (str ''unsupported operation type'')"
definition BadDecompression :: go_error where "BadDecompression = BadPayload (str ''decompression failed'')"

text \<open>The extents of a \<open>ZERO\<close> operation: \<open>make([]byte, num_blocks)\<close> is written to each.\<close>

fun write_zero_extents :: "payload_env \<Rightarrow> u32 \<Rightarrow> Extent list \<Rightarrow> dest \<Rightarrow> dest \<times> unit go" where
  "write_zero_extents env block_size [] d = (d, Inr ())"
| "write_zero_extents env block_size (ext # exts) d =
     (let d1 = dst_seek env (StartBlock ext * ucast block_size) d in
      case go_make env (NumBlocks ext) of
        Inl e \<Rightarrow> (d1, Inl e)
      | Inr n \<Rightarrow> write_zero_extents env block_size exts (dst_write (replicate n 0) d1))"

text \<open>What an operation does with its data and its destination.\<close>

definition write_data ::
    "codecs \<Rightarrow> payload_env \<Rightarrow> u32 \<Rightarrow> InstallOperation \<Rightarrow> bytes \<Rightarrow> dest \<Rightarrow> dest \<times> unit go" where
  "write_data cs env block_size operation buf d =
     (case go_index (DstExtents operation) 0 of
        Inl e \<Rightarrow> (d, Inl e)
      | Inr ext0 \<Rightarrow>
          let out_offset = StartBlock ext0 * ucast block_size in
          (case OpType operation of
             REPLACE \<Rightarrow> (dst_write buf (dst_seek env out_offset d), Inr ())
           | ZERO \<Rightarrow> write_zero_extents env block_size (DstExtents operation) d
           | OtherType t \<Rightarrow> (d, Inl (Err BadType))
           | _ \<Rightarrow>
               let d1 = dst_seek env out_offset d in
               (case DecompressToFd cs buf [] of
                  Inl e \<Rightarrow> (d1, Inl e)
                | Inr (ok, out) \<Rightarrow> if ok then (dst_write out d1, Inr ()) else (d1, Inl (Err BadDecompression)))))"

text \<open>
  One round of the loop. \<open>curr_data_offset\<close> is an \<open>int64\<close>, kept as the word with the same
  bits.
\<close>

definition run_op ::
    "codecs \<Rightarrow> payload_env \<Rightarrow> u32 \<Rightarrow> InstallOperation \<Rightarrow> source \<times> u64 \<times> dest \<Rightarrow> dest \<times> (source \<times> u64) go" where
  "run_op cs env block_size operation st =
     (case st of (s, curr_data_offset, d) \<Rightarrow>
        if DataLength operation = 0 then (d, Inl (Err BadLength))
        else if DataOffset operation = 0 then (d, Inl (Err BadOffset))
        else case go_make env (DataLength operation) of
          Inl e \<Rightarrow> (d, Inl e)
        | Inr n \<Rightarrow>
            let (buf, _, s1) = src_read env n (src_skip env (DataOffset operation - curr_data_offset) s) in
            (case write_data cs env block_size operation buf d of
               (d1, Inl e) \<Rightarrow> (d1, Inl e)
             | (d1, Inr _) \<Rightarrow> (d1, Inr (s1, DataOffset operation + DataLength operation))))"

text \<open>
  When the output is the input file itself (\<open>shared\<close>), there is one file behind the two
  descriptors: \<open>os.Create\<close> has emptied it, and a read finds what has been written so far.
\<close>

definition seen_by_reader :: "bool \<Rightarrow> dest \<Rightarrow> source \<Rightarrow> source" where
  "seen_by_reader shared d s = (if shared then s\<lparr>src_data := dst_data d\<rparr> else s)"

fun run_ops ::
    "bool \<Rightarrow> codecs \<Rightarrow> payload_env \<Rightarrow> u32 \<Rightarrow> InstallOperation list \<Rightarrow> source \<times> u64 \<times> dest \<Rightarrow> dest \<times> unit go" where
  "run_ops shared cs env block_size [] (s, c, d) = (d, Inr ())"
| "run_ops shared cs env block_size (operation # ops) (s, c, d) =
     (case run_op cs env block_size operation (seen_by_reader shared d s, c, d) of
        (d', Inl e) \<Rightarrow> (d', Inl e)
      | (d', Inr (s', c')) \<Rightarrow> run_ops shared cs env block_size ops (s', c', d'))"

section \<open>The command\<close>

definition PAYLOAD_MAGIC :: bytes where
  "PAYLOAD_MAGIC = str ''CrAU''"

text \<open>
  The header and the manifest: what is left of the input, the signature length and the
  manifest. The message about the version is without its number.
\<close>

definition read_manifest :: "payload_env \<Rightarrow> source \<Rightarrow> (source \<times> u32 \<times> DeltaArchiveManifest) go" where
  "read_manifest env s0 =
     (let (buf, eof, s1) = src_read env 4 s0 in
      if eof then Inl Fatal
      else if buf \<noteq> PAYLOAD_MAGIC then Inl (Err (BadPayload (str ''invalid magic'')))
      else let (version :: u64, s2) = src_read_int 8 s1 in
      if version \<noteq> 2 then Inl (Err (BadPayload (str ''unsupported version'')))
      else let (manifest_len :: u64, s3) = src_read_int 8 s2 in
      if manifest_len = 0 then Inl (Err (BadPayload (str ''mainfest length is zero'')))
      else let (manifest_sig_len :: u32, s4) = src_read_int 4 s3 in
      if manifest_sig_len = 0 then Inl (Err (BadPayload (str ''manifest signature length is zero'')))
      else go_bind (go_make env manifest_len) (\<lambda>n.
        let (buf, eof, s5) = src_read env n s4 in
        if eof then Inl Fatal
        else case unmarshal env buf of
          None \<Rightarrow> Inl Fatal
        | Some m \<Rightarrow>
            if MinorVersion m \<noteq> 0 then Inl (Err (BadPayload (str ''delta payloads are not supported, please use a full payload file'')))
            else Inr (s5, manifest_sig_len, m)))"

definition open_source :: "io \<Rightarrow> bytes \<Rightarrow> source go" where
  "open_source w in_path =
     (if in_path = std_name then Inr \<lparr>src_data = concat (Stdin w), src_pos = 0, src_seeks = StdinSeeks w\<rparr>
      else case Files w in_path of
        None \<Rightarrow> Inl Fatal
      | Some c \<Rightarrow> Inr \<lparr>src_data = c, src_pos = 0, src_seeks = True\<rparr>)"

text \<open>
  The descriptor of the input stays open while \<open>os.Create\<close> truncates the output. Two paths are
  the same file when they are equal; other names of one file (links, other spellings) are not
  seen.
\<close>

definition doExtractBootFromPayload ::
    "codecs \<Rightarrow> payload_env \<Rightarrow> io \<Rightarrow> bytes \<Rightarrow> bytes \<Rightarrow> bytes \<Rightarrow> io \<times> unit go" where
  "doExtractBootFromPayload cs env w in_path partition_name out_path =
     (case go_bind (open_source w in_path) (read_manifest env) of
        Inl e \<Rightarrow> (w, Inl e)
      | Inr (s, sig_len, m) \<Rightarrow>
          (case select_partition partition_name m of
             Inl e \<Rightarrow> (w, Inl e)
           | Inr p \<Rightarrow>
               let out_path = (if out_path = [] then PartitionName p @ str ''.img'' else out_path) in
               if \<not> CanCreate w out_path then (w, Inl Fatal)
               else
                 (case run_ops (in_path \<noteq> std_name \<and> out_path = in_path) cs env (BlockSize m) (sort_ops env (Operations p))
                         (src_skip env (ucast sig_len) s, 0, \<lparr>dst_data = [], dst_pos = 0\<rparr>) of
                    (d, r) \<Rightarrow> (w\<lparr>Files := (Files w)(out_path \<mapsto> dst_data d)\<rparr>, r))))"

definition ExtractBootFromPayload ::
    "codecs \<Rightarrow> payload_env \<Rightarrow> io \<Rightarrow> bytes \<Rightarrow> bytes \<Rightarrow> bytes \<Rightarrow> io \<times> bool go" where
  "ExtractBootFromPayload cs env w in_path partition_name out_path =
     (case doExtractBootFromPayload cs env w (trim_right in_path [32]) (trim_right partition_name [32])
             (trim_right out_path [32]) of
        (w', Inl (Err e)) \<Rightarrow> (w', Inr False)
      | (w', Inl e) \<Rightarrow> (w', Inl e)
      | (w', Inr _) \<Rightarrow> (w', Inr True))"

section \<open>Reading\<close>

text \<open>The state of the input when it has read \<open>pre\<close> of \<open>pre @ rest\<close>.\<close>

definition src_at :: "bytes \<Rightarrow> bytes \<Rightarrow> bool \<Rightarrow> source" where
  "src_at pre rest b = \<lparr>src_data = pre @ rest, src_pos = length pre, src_seeks = b\<rparr>"

lemma src_read_at:
  "length x \<le> read_max env \<Longrightarrow> x \<noteq> [] \<Longrightarrow>
   src_read env (length x) (src_at pre (x @ rest) b) = (x, False, src_at (pre @ x) rest b)"
  by (simp add: src_read_def src_at_def Let_def)

lemma be_word_word_be: "8 * n = LENGTH('a) \<Longrightarrow> be_word (word_be n (w :: 'a::len word)) = w"
  by (simp add: be_word_def word_be_def le_word_word_le)

lemma word_be_be_word: "8 * length bs = LENGTH('a) \<Longrightarrow> word_be (length bs) (be_word bs :: 'a::len word) = bs"
  using word_le_le_word [of "rev bs", where 'a = 'a] by (simp add: be_word_def word_be_def)

lemma src_read_int_at:
  "8 * n = LENGTH('a) \<Longrightarrow>
   src_read_int n (src_at pre (word_be n (w :: 'a::len word) @ rest) b) = (w, src_at (pre @ word_be n w) rest b)"
  by (simp add: src_read_int_def src_at_def Let_def be_word_word_be)

lemma src_read_int_nonzero:
  assumes "src_read_int n (src_at pre rest b) = (w :: 'a::len word, s)" "w \<noteq> 0" "8 * n = LENGTH('a)"
  shows "\<exists>r. rest = word_be n w @ r \<and> s = src_at (pre @ word_be n w) r b"
proof -
  from assms(1,2) have len: "length (take n rest) = n" and w: "w = be_word (take n rest)"
    and s: "s = (src_at pre rest b)\<lparr>src_pos := length pre + n\<rparr>"
    by (auto simp: src_read_int_def src_at_def Let_def split: if_splits)
  have "word_be n w = take n rest"
    using word_be_be_word [of "take n rest", where 'a = 'a] len w assms(3) by simp
  moreover have "rest = take n rest @ drop n rest" by simp
  ultimately show ?thesis using len s by (intro exI [of _ "drop n rest"]) (auto simp: src_at_def)
qed

section \<open>The header\<close>

definition payload_header :: "u64 \<Rightarrow> u32 \<Rightarrow> bytes" where
  "payload_header n k = PAYLOAD_MAGIC @ word_be 8 (2 :: u64) @ word_be 8 n @ word_be 4 k"

lemma length_PAYLOAD_MAGIC [simp]: "length PAYLOAD_MAGIC = 4" "PAYLOAD_MAGIC \<noteq> []"
  by (simp_all add: PAYLOAD_MAGIC_def)

lemma src_read_magic:
  assumes "src_read env 4 (src_at [] bs b) = (buf, eof, s1)" "buf = PAYLOAD_MAGIC" "4 \<le> read_max env"
  shows "take 4 bs = PAYLOAD_MAGIC \<and> s1 = \<lparr>src_data = bs, src_pos = 4, src_seeks = b\<rparr>"
proof -
  let ?z = "replicate (4 - length (take 4 bs)) (0 :: byte)"
  have m: "take 4 bs @ ?z = PAYLOAD_MAGIC"
    and s1: "s1 = \<lparr>src_data = bs, src_pos = length (take 4 bs), src_seeks = b\<rparr>"
    using assms by (auto simp: src_read_def src_at_def Let_def)
  have "?z = []"
  proof (rule ccontr)
    assume z: "?z \<noteq> []"
    then have "last ?z = 0" by (metis in_set_replicate last_in_set)
    with z have "last (take 4 bs @ ?z) = 0" by (simp del: length_take)
    with m show False by (simp add: PAYLOAD_MAGIC_def str_def)
  qed
  with m s1 show ?thesis by simp
qed

lemma length_payload_header [simp]: "length (payload_header n k) = 24"
  by (simp add: payload_header_def)

lemma read_manifest_header:
  assumes "4 \<le> read_max env" "n \<noteq> 0" "k \<noteq> 0"
  shows "read_manifest env (src_at [] (payload_header n k @ rest) b) =
     go_bind (go_make env n) (\<lambda>l.
       let (buf, eof, s5) = src_read env l (src_at (payload_header n k) rest b) in
       if eof then Inl Fatal
       else case unmarshal env buf of
         None \<Rightarrow> Inl Fatal
       | Some m \<Rightarrow>
           if MinorVersion m \<noteq> 0
           then Inl (Err (BadPayload (str ''delta payloads are not supported, please use a full payload file'')))
           else Inr (s5, k, m))"
proof -
  have "src_read env 4 (src_at [] (PAYLOAD_MAGIC @ r) b) = (PAYLOAD_MAGIC, False, src_at PAYLOAD_MAGIC r b)" for r
    using src_read_at [of PAYLOAD_MAGIC env "[]" r b] assms(1) by simp
  then show ?thesis
    using assms(2,3) by (simp add: read_manifest_def payload_header_def src_read_int_at Let_def)
qed

text \<open>
  C29. Which inputs get past the header and the manifest: those that begin with the magic, the
  version 2, a length that is not zero and can be allocated and a signature length that is not
  zero, followed by at least one byte, such that the bytes got by one read, filled up with zero
  bytes to the length when the input is shorter, decode and are not a delta payload. So a manifest
  that is cut short can be accepted, and a payload whose signature length is 0 is refused.
\<close>

theorem read_manifest_accepts:
  assumes "4 \<le> read_max env"
  shows "read_manifest env \<lparr>src_data = bs, src_pos = 0, src_seeks = b\<rparr> = Inr (s, k, m) \<longleftrightarrow>
    (\<exists>n rest. bs = payload_header n k @ rest \<and> n \<noteq> 0 \<and> k \<noteq> 0 \<and> unat n \<le> max_alloc env \<and> rest \<noteq> []
       \<and> (let got = take (min (unat n) (read_max env)) rest in
          unmarshal env (got @ replicate (unat n - length got) 0) = Some m
          \<and> s = \<lparr>src_data = bs, src_pos = 24 + length got, src_seeks = b\<rparr>)
       \<and> MinorVersion m = 0)" (is "?l \<longleftrightarrow> ?r")
proof
  assume ?r
  then obtain n rest where r: "bs = payload_header n k @ rest" "n \<noteq> 0" "k \<noteq> 0" "unat n \<le> max_alloc env"
      "rest \<noteq> []" "MinorVersion m = 0"
      "unmarshal env (take (min (unat n) (read_max env)) rest
         @ replicate (unat n - length (take (min (unat n) (read_max env)) rest)) 0) = Some m"
      "s = \<lparr>src_data = bs, src_pos = 24 + length (take (min (unat n) (read_max env)) rest), src_seeks = b\<rparr>"
    by (auto simp: Let_def)
  have "unat n \<noteq> 0" using r(2) by (simp add: unat_eq_zero)
  with r assms show ?l
    using read_manifest_header [OF assms r(2,3), of rest b]
    by (simp add: src_at_def go_make_def src_read_def Let_def)
next
  assume l: ?l
  have s0: "\<lparr>src_data = bs, src_pos = 0, src_seeks = b\<rparr> = src_at [] bs b" by (simp add: src_at_def)
  obtain buf eof s1 where e1: "src_read env 4 (src_at [] bs b) = (buf, eof, s1)" by (metis prod_cases3)
  obtain v s2 where e2: "src_read_int 8 s1 = (v :: u64, s2)" by fastforce
  obtain n s3 where e3: "src_read_int 8 s2 = (n :: u64, s3)" by fastforce
  obtain k' s4 where e4: "src_read_int 4 s3 = (k' :: u32, s4)" by fastforce
  from l have c: "buf = PAYLOAD_MAGIC" "v = 2" "n \<noteq> 0" "k' \<noteq> 0"
    unfolding read_manifest_def s0 by (simp_all add: e1 e2 e3 e4 Let_def split: if_splits)
  have "take 4 bs = PAYLOAD_MAGIC \<and> s1 = \<lparr>src_data = bs, src_pos = 4, src_seeks = b\<rparr>"
    using e1 c(1) assms by (rule src_read_magic)
  then obtain r1 where "bs = PAYLOAD_MAGIC @ r1" "s1 = src_at PAYLOAD_MAGIC r1 b"
    by (metis append_take_drop_id length_PAYLOAD_MAGIC(1) src_at_def)
  moreover from src_read_int_nonzero [OF e2 [unfolded this(2)]] c(2)
  obtain r2 where "r1 = word_be 8 (2 :: u64) @ r2" "s2 = src_at (PAYLOAD_MAGIC @ word_be 8 (2 :: u64)) r2 b"
    by auto
  moreover from src_read_int_nonzero [OF e3 [unfolded this(2)] c(3)]
  obtain r3 where "r2 = word_be 8 n @ r3" "s3 = src_at ((PAYLOAD_MAGIC @ word_be 8 (2 :: u64)) @ word_be 8 n) r3 b"
    by auto
  moreover from src_read_int_nonzero [OF e4 [unfolded this(2)] c(4)]
  obtain r4 where "r3 = word_be 4 k' @ r4" by auto
  ultimately have bs: "bs = payload_header n k' @ r4" by (simp add: payload_header_def)
  have n0: "unat n \<noteq> 0" using c(3) by (simp add: unat_eq_zero)
  have "read_manifest env (src_at [] (payload_header n k' @ r4) b) = Inr (s, k, m)"
    using l s0 bs by simp
  then show ?r
    using n0 c(3,4) unfolding bs read_manifest_header [OF assms c(3,4)]
    by (intro exI [of _ n] exI [of _ r4])
      (auto simp: go_bind_Inr_iff go_make_def src_read_def src_at_def Let_def split: if_splits option.splits)
qed

section \<open>The order of the operations\<close>

text \<open>What \<open>sort.Slice\<close> promises: a permutation, sorted by the offset; ties in any order.\<close>

locale op_sorter =
  fixes srt :: "InstallOperation list \<Rightarrow> InstallOperation list"
  assumes mset_srt: "mset (srt ops) = mset ops"
    and sorted_srt: "sorted (map DataOffset (srt ops))"
begin

lemma set_srt: "set (srt ops) = set ops"
  using mset_srt by (rule mset_eq_setD)

lemma list_all_srt: "list_all P (srt ops) \<longleftrightarrow> list_all P ops"
  by (simp add: list_all_iff set_srt)

lemma srt_unique:
  assumes "sorted (map DataOffset ops)" "distinct (map DataOffset ops)"
  shows "srt ops = ops"
proof (rule map_sorted_distinct_set_unique [of DataOffset])
  show "inj_on DataOffset (set (srt ops) \<union> set ops)"
    using assms(2) by (simp add: set_srt distinct_map)
  show "distinct (map DataOffset (srt ops))"
    using assms(2) mset_srt by (metis mset_eq_imp_distinct_iff mset_map)
qed (use assms sorted_srt set_srt in simp_all)

end

interpretation by_offset: op_sorter "sort_key DataOffset"
  by unfold_locales simp_all

section \<open>Absolute offsets\<close>

lemma sint_word_of_int: "- (2 ^ 63) \<le> x \<Longrightarrow> x < 2 ^ 63 \<Longrightarrow> sint (word_of_int x :: u64) = x"
  by (simp add: signed_of_int signed_take_bit_int_eq_self)

lemma uint_small: "unat (w :: u64) < 2 ^ 63 \<Longrightarrow> uint w < 2 ^ 63"
  by (metis of_nat_less_iff of_nat_numeral of_nat_power uint_nat)

lemma sint_small: "unat (w :: u64) < 2 ^ 63 \<Longrightarrow> sint w = int (unat w)"
  using sint_word_of_int [of "uint w"] uint_small [of w] uint_ge_0 [of w] by simp

lemma unat_ucast_u32 [simp]: "unat (ucast (b :: u32) :: u64) = unat b"
proof -
  have "unat b < 2 ^ LENGTH(32)" by (rule unsigned_less)
  then show ?thesis by (simp add: unsigned_ucast_eq take_bit_nat_eq_self)
qed

lemma sint_diff:
  assumes "unat (a :: u64) < 2 ^ 63" "unat (b :: u64) < 2 ^ 63"
  shows "sint (a - b) = int (unat a) - int (unat b)"
proof -
  have "- (2 ^ 63) \<le> uint a - uint b" "uint a - uint b < 2 ^ 63"
    using uint_small [OF assms(1)] uint_small [OF assms(2)] uint_ge_0 [of a] uint_ge_0 [of b] by linarith+
  from sint_word_of_int [OF this] show ?thesis by simp
qed

text \<open>What an operation refers to in the data area \<open>blob\<close>, and where it goes.\<close>

definition op_slice :: "bytes \<Rightarrow> InstallOperation \<Rightarrow> bytes" where
  "op_slice blob operation = take (unat (DataLength operation)) (drop (unat (DataOffset operation)) blob)"

definition op_content :: "codecs \<Rightarrow> bytes \<Rightarrow> InstallOperation \<Rightarrow> bytes go" where
  "op_content cs blob operation =
     (case OpType operation of
        REPLACE \<Rightarrow> Inr (op_slice blob operation)
      | ZERO \<Rightarrow> Inl (Err BadType)
      | OtherType _ \<Rightarrow> Inl (Err BadType)
      | _ \<Rightarrow> go_bind (DecompressToFd cs (op_slice blob operation) []) (\<lambda>(ok, out).
          if ok then Inr out else Inl (Err BadDecompression)))"

definition op_target :: "u32 \<Rightarrow> InstallOperation \<Rightarrow> nat" where
  "op_target block_size operation = unat (StartBlock (hd (DstExtents operation))) * unat block_size"

text \<open>The operations the program handles, with everything in range.\<close>

definition op_ok :: "codecs \<Rightarrow> payload_env \<Rightarrow> u32 \<Rightarrow> bytes \<Rightarrow> InstallOperation \<Rightarrow> bool" where
  "op_ok cs env block_size blob operation \<longleftrightarrow>
     DataLength operation \<noteq> 0 \<and> DataOffset operation \<noteq> 0
     \<and> unat (DataOffset operation) + unat (DataLength operation) \<le> length blob
     \<and> unat (DataLength operation) \<le> min (read_max env) (max_alloc env)
     \<and> DstExtents operation \<noteq> [] \<and> op_target block_size operation < 2 ^ 63
     \<and> int (op_target block_size operation) \<le> max_seek env
     \<and> (\<exists>c. op_content cs blob operation = Inr c)"

text \<open>The image: the contents written at their targets, one after the other.\<close>

definition write_op :: "codecs \<Rightarrow> u32 \<Rightarrow> bytes \<Rightarrow> bytes \<Rightarrow> InstallOperation \<Rightarrow> bytes" where
  "write_op cs block_size blob f operation =
     (case op_content cs blob operation of
        Inl _ \<Rightarrow> f | Inr c \<Rightarrow> write_at (op_target block_size operation) c f)"

definition image_of :: "codecs \<Rightarrow> u32 \<Rightarrow> bytes \<Rightarrow> InstallOperation list \<Rightarrow> bytes" where
  "image_of cs block_size blob ops = foldl (write_op cs block_size blob) [] ops"

lemma op_target_word:
  assumes "op_ok cs env block_size blob operation"
  shows "sint (StartBlock (hd (DstExtents operation)) * ucast block_size) = int (op_target block_size operation)"
proof -
  have "op_target block_size operation < 2 ^ 64"
    using assms by (simp add: op_ok_def)
  then have "unat (StartBlock (hd (DstExtents operation)) * ucast block_size) = op_target block_size operation"
    by (simp add: op_target_def unat_word_ariths)
  moreover from this have "sint (StartBlock (hd (DstExtents operation)) * ucast block_size)
      = int (unat (StartBlock (hd (DstExtents operation)) * ucast block_size))"
    using assms by (intro sint_small) (simp add: op_ok_def)
  ultimately show ?thesis by metis
qed

lemma write_data_ok:
  assumes "op_ok cs env block_size blob operation" "op_content cs blob operation = Inr c"
  shows "\<exists>d'. write_data cs env block_size operation (op_slice blob operation) d = (d', Inr ())
     \<and> dst_data d' = write_at (op_target block_size operation) c (dst_data d)"
proof -
  from assms(1) have ne: "DstExtents operation \<noteq> []" by (simp add: op_ok_def)
  then have "go_index (DstExtents operation) 0 = Inr (hd (DstExtents operation))"
    by (simp add: go_index_def hd_conv_nth)
  moreover have "dst_seek env (StartBlock (hd (DstExtents operation)) * ucast block_size) d
      = d\<lparr>dst_pos := op_target block_size operation\<rparr>"
    using assms(1) by (simp add: dst_seek_def op_target_word [OF assms(1)] op_ok_def)
  ultimately show ?thesis using assms(2)
    by (auto simp: write_data_def op_content_def dst_write_def go_bind_Inr_iff Let_def
        split: op_type.splits if_splits)
qed

text \<open>
  The input behind the base \<open>pre\<close>, when the program believes it is at the offset \<open>c\<close> of the data
  area: the relative seek over \<open>offset - c\<close> ends at the absolute place of the data.
\<close>

definition src_in :: "bytes \<Rightarrow> bytes \<Rightarrow> u64 \<Rightarrow> source" where
  "src_in pre blob c = \<lparr>src_data = pre @ blob, src_pos = length pre + unat c, src_seeks = True\<rparr>"

lemma src_skip_in:
  assumes "unat a \<le> length blob" "unat c \<le> length blob"
    and "int (length (pre @ blob)) \<le> max_seek env" "length blob < 2 ^ 63"
  shows "src_skip env (a - c) (src_in pre blob c) = src_in pre blob a"
proof -
  have e: "int (src_pos (src_in pre blob c)) + sint (a - c) = int (length pre + unat a)"
    using assms(1,2,4) by (subst sint_diff) (simp_all add: src_in_def)
  have "length pre + unat a \<le> length (pre @ blob)" using assms(1) by simp
  then have "int (length pre + unat a) \<le> int (length (pre @ blob))" by (simp only: of_nat_le_iff)
  then have "int (length pre + unat a) \<le> max_seek env" using assms(3) by (rule order_trans)
  moreover have "src_seeks (src_in pre blob c)" by (simp add: src_in_def)
  ultimately have "src_skip env (a - c) (src_in pre blob c) = (src_in pre blob c)\<lparr>src_pos := length pre + unat a\<rparr>"
    by (simp only: src_skip_def Let_def e nat_int) simp
  then show ?thesis by (simp add: src_in_def)
qed

lemma unat_add_small: "unat (a :: u64) + unat n < 2 ^ 64 \<Longrightarrow> unat (a + n) = unat a + unat n"
  by (simp add: unat_word_ariths)

lemma src_read_in:
  assumes "unat a + unat n \<le> length blob" "unat n \<le> read_max env" "length blob < 2 ^ 64"
  shows "\<exists>e. src_read env (unat n) (src_in pre blob a) = (take (unat n) (drop (unat a) blob), e, src_in pre blob (a + n))"
proof -
  have "unat (a + n) = unat a + unat n"
    using assms(1,3) by (intro unat_add_small) simp
  then show ?thesis
    using assms(1,2) by (auto simp: src_read_def src_in_def Let_def)
qed

lemma run_op_ok:
  assumes ok: "op_ok cs env block_size blob operation"
    and c: "unat c \<le> length blob"
    and range: "int (length (pre @ blob)) \<le> max_seek env" "length blob < 2 ^ 63"
  shows "\<exists>d' c'. run_op cs env block_size operation (src_in pre blob c, c, d) = (d', Inr (src_in pre blob c', c'))
     \<and> dst_data d' = write_op cs block_size blob (dst_data d) operation \<and> unat c' \<le> length blob"
proof -
  let ?a = "DataOffset operation" and ?n = "DataLength operation"
  have o: "?n \<noteq> 0" "?a \<noteq> 0" "unat ?a + unat ?n \<le> length blob" "unat ?n \<le> read_max env" "unat ?n \<le> max_alloc env"
    using ok by (simp_all add: op_ok_def)
  from ok obtain x where x: "op_content cs blob operation = Inr x" by (auto simp: op_ok_def)
  obtain d' where d': "write_data cs env block_size operation (op_slice blob operation) d = (d', Inr ())"
      "dst_data d' = write_at (op_target block_size operation) x (dst_data d)"
    using write_data_ok [OF ok x] by blast
  have skip: "src_skip env (?a - c) (src_in pre blob c) = src_in pre blob ?a"
    using o(3) c range by (intro src_skip_in) simp_all
  obtain e where rd: "src_read env (unat ?n) (src_in pre blob ?a) = (op_slice blob operation, e, src_in pre blob (?a + ?n))"
    unfolding op_slice_def using src_read_in [OF o(3,4), of pre] range(2) by force
  have "unat (?a + ?n) \<le> length blob"
    using o(3) range(2) by (subst unat_add_small) simp_all
  with o(1,2,5) d' skip rd x show ?thesis
    by (auto simp: run_op_def go_make_def write_op_def)
qed

lemma run_ops_ok:
  assumes "list_all (op_ok cs env block_size blob) ops" "unat c \<le> length blob"
    and "int (length (pre @ blob)) \<le> max_seek env" "length blob < 2 ^ 63"
  shows "\<exists>d'. run_ops False cs env block_size ops (src_in pre blob c, c, d) = (d', Inr ())
     \<and> dst_data d' = foldl (write_op cs block_size blob) (dst_data d) ops"
  using assms(1,2)
proof (induction ops arbitrary: c d)
  case (Cons operation ops)
  then obtain d1 c1 where r: "run_op cs env block_size operation (src_in pre blob c, c, d) = (d1, Inr (src_in pre blob c1, c1))"
      "dst_data d1 = write_op cs block_size blob (dst_data d) operation" "unat c1 \<le> length blob"
    using run_op_ok [OF _ _ assms(3,4)] by (metis list.pred_inject(2))
  from Cons.IH [OF _ r(3), of d1] Cons.prems(1) r(1,2) show ?case by (auto simp: seen_by_reader_def)
qed simp

section \<open>Whole payloads\<close>

definition payload_file :: "bytes \<Rightarrow> bytes \<Rightarrow> bytes \<Rightarrow> bytes" where
  "payload_file mb sig blob = payload_header (of_nat (length mb)) (of_nat (length sig)) @ mb @ sig @ blob"

definition payload_fits :: "payload_env \<Rightarrow> bytes \<Rightarrow> bytes \<Rightarrow> bytes \<Rightarrow> bool" where
  "payload_fits env mb sig blob \<longleftrightarrow>
     mb \<noteq> [] \<and> sig \<noteq> [] \<and> length sig < 2 ^ 32 \<and> 4 \<le> read_max env \<and> length mb \<le> min (read_max env) (max_alloc env)
     \<and> length (payload_file mb sig blob) < 2 ^ 63 \<and> int (length (payload_file mb sig blob)) \<le> max_seek env"

lemma read_manifest_file:
  assumes "payload_fits env mb sig blob" "unmarshal env mb = Some m" "MinorVersion m = 0"
  shows "read_manifest env \<lparr>src_data = payload_file mb sig blob, src_pos = 0, src_seeks = b\<rparr> =
     Inr (src_at (payload_header (of_nat (length mb)) (of_nat (length sig)) @ mb) (sig @ blob) b, of_nat (length sig), m)"
proof -
  let ?n = "of_nat (length mb) :: u64" and ?k = "of_nat (length sig) :: u32"
  have fits: "mb \<noteq> []" "sig \<noteq> []" "length mb < 2 ^ 63" "4 \<le> read_max env" "length mb \<le> read_max env"
      "length mb \<le> max_alloc env" "length sig < 2 ^ 32"
    using assms(1) by (simp_all add: payload_fits_def payload_file_def)
  have n: "unat ?n = length mb" "unat ?k = length sig"
    using fits by (simp_all add: unat_of_nat_small)
  then have "?n \<noteq> 0" "?k \<noteq> 0" using fits(1,2) by (metis length_0_conv unat_0)+
  then have "read_manifest env (src_at [] (payload_file mb sig blob) b) =
     Inr (src_at (payload_header ?n ?k @ mb) (sig @ blob) b, ?k, m)"
    unfolding payload_file_def read_manifest_header [OF fits(4) \<open>?n \<noteq> 0\<close> \<open>?k \<noteq> 0\<close>]
    using fits assms(2,3) by (simp add: go_make_def n src_read_at)
  then show ?thesis by (simp add: src_at_def)
qed

lemma src_skip_at:
  assumes "length sig < 2 ^ 32" "int (length (pre @ sig @ blob)) \<le> max_seek env"
  shows "src_skip env (ucast (of_nat (length sig) :: u32)) (src_at pre (sig @ blob) True) = src_in (pre @ sig) blob 0"
proof -
  let ?w = "ucast (of_nat (length sig) :: u32) :: u64"
  have "unat (of_nat (length sig) :: u32) = length sig"
    by (rule unat_of_nat_small) (use assms(1) in simp)
  then have "unat ?w = length sig" by simp
  then have "sint ?w = int (length sig)"
    using assms(1) sint_small [of ?w] by simp
  then show ?thesis
    using assms(2) by (simp add: src_skip_def src_at_def src_in_def Let_def)
qed

text \<open>
  C2. Extraction refines its specification. For a full payload in a file, when every
  operation of the chosen partition is of a handled type and in range, the output file
  is the image: for each operation in the order of the offsets, its data, taken at its
  absolute offset in the data area and decompressed where the type says so, written at
  the start of its first extent. The program only ever seeks relatively, over the
  difference to where it believes to be. The output must be another file than the payload,
  which creating the output would empty before the data is read.
\<close>

theorem extract_image:
  assumes "Files w in_path = Some (payload_file mb sig blob)" "in_path \<noteq> std_name"
    and fits: "payload_fits env mb sig blob" and m: "unmarshal env mb = Some m" "MinorVersion m = 0"
    and p: "select_partition partition_name m = Inr p"
    and srt: "op_sorter (sort_ops env)"
    and ops: "list_all (op_ok cs env (BlockSize m) blob) (Operations p)"
    and out: "CanCreate w out_path" "out_path \<noteq> []" "out_path \<noteq> in_path"
  shows "doExtractBootFromPayload cs env w in_path partition_name out_path =
     (w\<lparr>Files := (Files w)(out_path \<mapsto> image_of cs (BlockSize m) blob (sort_ops env (Operations p)))\<rparr>, Inr ())"
proof -
  let ?pre = "payload_header (of_nat (length mb)) (of_nat (length sig)) @ mb"
  have fits': "length sig < 2 ^ 32" "length blob < 2 ^ 63" "int (length ((?pre @ sig) @ blob)) \<le> max_seek env"
    using fits by (simp_all add: payload_fits_def payload_file_def)
  have ops': "list_all (op_ok cs env (BlockSize m) blob) (sort_ops env (Operations p))"
    using ops op_sorter.list_all_srt [OF srt] by blast
  obtain d where d: "run_ops False cs env (BlockSize m) (sort_ops env (Operations p))
        (src_in (?pre @ sig) blob 0, 0, \<lparr>dst_data = [], dst_pos = 0\<rparr>) = (d, Inr ())"
      "dst_data d = image_of cs (BlockSize m) blob (sort_ops env (Operations p))"
    using run_ops_ok [OF ops' _ fits'(3,2), of 0 "\<lparr>dst_data = [], dst_pos = 0\<rparr>"]
    by (auto simp: image_of_def)
  have skip: "src_skip env (ucast (of_nat (length sig) :: u32)) (src_at ?pre (sig @ blob) True) = src_in (?pre @ sig) blob 0"
    using fits'(1,3) by (intro src_skip_at) simp_all
  show ?thesis
    using assms(1,2) out d read_manifest_file [OF fits m] p skip
    by (simp add: doExtractBootFromPayload_def open_source_def)
qed

text \<open>A payload to run the program on.\<close>

definition sample_op :: "op_type \<Rightarrow> u64 \<Rightarrow> u64 \<Rightarrow> u64 \<Rightarrow> InstallOperation" where
  "sample_op t off n blk = \<lparr>OpType = t, DataOffset = off, DataLength = n, DstExtents = [\<lparr>StartBlock = blk, NumBlocks = 1\<rparr>]\<rparr>"

definition sample_manifest :: "InstallOperation list \<Rightarrow> DeltaArchiveManifest" where
  "sample_manifest ops =
     \<lparr>Partitions = [\<lparr>PartitionName = str ''boot'', Operations = ops\<rparr>], BlockSize = 4, MinorVersion = 0\<rparr>"

definition sample_env :: "InstallOperation list \<Rightarrow> payload_env" where
  "sample_env ops =
     \<lparr>unmarshal = (\<lambda>b. if b = [7] then Some (sample_manifest ops) else None), sort_ops = sort_key DataOffset,
      read_max = 1000, max_seek = 1000, max_alloc = 1000\<rparr>"

definition payload_io :: "bytes \<Rightarrow> io" where
  "payload_io c = \<lparr>Files = [str ''payload.bin'' \<mapsto> c], CanCreate = \<lambda>_. True, Stdin = [], StdinSeeks = False, Stdout = []\<rparr>"

abbreviation sample_ops :: "InstallOperation list" where
  "sample_ops \<equiv> [sample_op REPLACE 3 2 1, sample_op REPLACE 1 2 0]"

lemma payload_fits_sample: "length blob < 100 \<Longrightarrow> payload_fits (sample_env ops) [7] [9] blob"
  by (simp add: payload_fits_def payload_file_def sample_env_def)

lemma unmarshal_sample: "unmarshal (sample_env ops) [7] = Some (sample_manifest ops)"
  by (simp add: sample_env_def)

lemma select_sample:
  "select_partition [] (sample_manifest ops) = Inr \<lparr>PartitionName = str ''boot'', Operations = ops\<rparr>"
  by (simp add: select_partition_def sample_manifest_def last_named_def named_def str_def)

lemma sorter_sample: "op_sorter (sort_ops (sample_env ops))"
  using by_offset.op_sorter_axioms by (simp add: sample_env_def)

theorem extract_image_witness:
  "doExtractBootFromPayload store_codecs (sample_env sample_ops) (payload_io (payload_file [7] [9] [0, 11, 12, 13, 14]))
     (str ''payload.bin'') [] (str ''boot.img'') =
   (payload_io (payload_file [7] [9] [0, 11, 12, 13, 14]) \<lparr>Files := [str ''payload.bin'' \<mapsto> payload_file [7] [9] [0, 11, 12, 13, 14],
      str ''boot.img'' \<mapsto> [11, 12, 0, 0, 13, 14]]\<rparr>, Inr ())"
proof -
  let ?blob = "[0, 11, 12, 13, 14] :: bytes"
  have ops: "list_all (op_ok store_codecs (sample_env sample_ops) (BlockSize (sample_manifest sample_ops)) ?blob) sample_ops"
    by (simp add: op_ok_def op_target_def op_content_def sample_op_def sample_env_def sample_manifest_def)
  have r2: "replicate 2 (0 :: byte) = [0, 0]" by (simp add: numeral_2_eq_2)
  have img: "image_of store_codecs 4 ?blob (sort_ops (sample_env sample_ops) sample_ops) = [11, 12, 0, 0, 13, 14]"
    by (simp add: image_of_def sample_env_def sample_op_def write_op_def op_content_def op_slice_def op_target_def write_at_def r2)
  have "Files (payload_io (payload_file [7] [9] ?blob)) (str ''payload.bin'') = Some (payload_file [7] [9] ?blob)"
    "str ''payload.bin'' \<noteq> std_name" "MinorVersion (sample_manifest sample_ops) = 0"
    "CanCreate (payload_io (payload_file [7] [9] ?blob)) (str ''boot.img'')" "str ''boot.img'' \<noteq> []"
    "str ''boot.img'' \<noteq> str ''payload.bin''"
    by (simp_all add: payload_io_def std_name_def str_def sample_manifest_def)
  from extract_image [OF this(1,2) payload_fits_sample unmarshal_sample this(3) select_sample sorter_sample _ this(4,5,6),
      of store_codecs] ops img
  show ?thesis by (simp add: payload_io_def sample_manifest_def)
qed

text \<open>
  C30. An operation whose data begins at offset 0 of the data area, or that has no data, as a \<open>ZERO\<close>
  operation, is never accepted: the extraction of its partition does not succeed.
\<close>

theorem extract_rejects_first_blob:
  assumes "go_bind (open_source w in_path) (read_manifest env) = Inr (s, k, m)"
    and "select_partition partition_name m = Inr p" "op_sorter (sort_ops env)"
    and "operation \<in> set (Operations p)" "DataOffset operation = 0 \<or> DataLength operation = 0"
  shows "\<exists>e. snd (doExtractBootFromPayload cs env w in_path partition_name out_path) = Inl e"
proof -
  have no: "operation \<in> set ops \<Longrightarrow> \<exists>d e. run_ops shared cs env bsz ops (s, c, d0) = (d, Inl e)"
    for shared ops bsz s c d0
  proof (induction ops arbitrary: s c d0)
    case (Cons x ops)
    show ?case
    proof (cases "x = operation")
      case True
      with assms(5) show ?thesis by (auto simp: run_op_def split: prod.splits)
    next
      case False
      with Cons.prems have "operation \<in> set ops" by simp
      from Cons.IH [OF this] show ?thesis
        by (fastforce split: prod.split sum.split)
    qed
  qed simp
  have "operation \<in> set (sort_ops env (Operations p))"
    using op_sorter.set_srt [OF assms(3)] assms(4) by simp
  from no [OF this]
  have fails: "\<exists>e. r = Inl e"
    if "run_ops shared cs env (BlockSize m) (sort_ops env (Operations p)) (s, c, d0) = (d, r)" for shared s c d0 d r
    using that by (metis prod.inject)
  show ?thesis
    using assms(1,2) by (auto simp: doExtractBootFromPayload_def Let_def split: prod.split dest: fails)
qed

theorem extract_rejects_first_blob_witness:
  "\<exists>e. snd (doExtractBootFromPayload store_codecs (sample_env [sample_op REPLACE 0 2 0])
     (payload_io (payload_file [7] [9] [11, 12])) (str ''payload.bin'') [] []) = Inl e"
proof -
  let ?ops = "[sample_op REPLACE 0 2 0]"
  have o: "go_bind (open_source (payload_io (payload_file [7] [9] [11, 12])) (str ''payload.bin''))
      (read_manifest (sample_env ?ops)) =
    Inr (src_at (payload_header (of_nat (length [7 :: byte])) (of_nat (length [9 :: byte])) @ [7]) ([9] @ [11, 12]) True,
      of_nat (length [9 :: byte]), sample_manifest ?ops)"
    using read_manifest_file [OF payload_fits_sample unmarshal_sample, of "[11, 12]" ?ops True]
    by (simp add: open_source_def payload_io_def std_name_def str_def sample_manifest_def)
  show ?thesis
    by (rule extract_rejects_first_blob [OF o select_sample sorter_sample, of "sample_op REPLACE 0 2 0"])
      (simp_all add: sample_op_def)
qed

theorem read_manifest_accepts_witness:
  "\<exists>s. read_manifest (sample_env []) \<lparr>src_data = payload_header 1 5 @ [7, 8], src_pos = 0, src_seeks = False\<rparr>
     = Inr (s, 5, sample_manifest []) \<and> src_pos s = 25"
proof -
  let ?s = "\<lparr>src_data = payload_header 1 5 @ [7, 8], src_pos = 25, src_seeks = False\<rparr>"
  have "read_manifest (sample_env []) \<lparr>src_data = payload_header 1 5 @ [7, 8], src_pos = 0, src_seeks = False\<rparr>
     = Inr (?s, 5, sample_manifest [])"
    by (subst read_manifest_accepts)
      (auto simp: sample_env_def sample_manifest_def Let_def intro!: exI [of _ 1] exI [of _ "[7, 8]"])
  then show ?thesis by auto
qed

text \<open>
  C31. The choice of the partition: with a name, the first partition of that name; without one, the last
  \<open>init_boot\<close>, or when there is none the last \<open>boot\<close>. Nothing to choose ends the process.
\<close>

theorem select_partition_spec:
  "select_partition n m =
     (let candidates =
        (if n = [] then filter (named (str ''boot'')) (Partitions m) @ filter (named (str ''init_boot'')) (Partitions m)
         else rev (filter (named n) (Partitions m)))
      in if candidates = [] then Inl Fatal else Inr (last candidates))"
proof -
  have l: "last_named k ps = (if filter (named k) ps = [] then None else Some (last (filter (named k) ps)))" for k ps
    unfolding last_named_def by (induction ps rule: rev_induct) auto
  have f: "List.find (named k) ps = (if filter (named k) ps = [] then None else Some (hd (filter (named k) ps)))" for k ps
    by (induction ps) auto
  show ?thesis
    by (simp add: select_partition_def l f last_rev Let_def)
qed

text \<open>
  A \<open>ZERO\<close> operation with data clears, at the start of each extent, as many bytes as the
  extent has blocks, and no more.
\<close>

theorem zero_op_clears_bytes:
  assumes "OpType operation = ZERO" "DstExtents operation \<noteq> []"
    and "list_all (\<lambda>e. unat (StartBlock e) * unat block_size < 2 ^ 63
       \<and> int (unat (StartBlock e) * unat block_size) \<le> max_seek env
       \<and> unat (NumBlocks e) \<le> max_alloc env) (DstExtents operation)"
  shows "\<exists>d'. write_data cs env block_size operation buf d = (d', Inr ())
     \<and> dst_data d' = foldl (\<lambda>f e. write_at (unat (StartBlock e) * unat block_size) (replicate (unat (NumBlocks e)) 0) f)
         (dst_data d) (DstExtents operation)"
proof -
  have "\<exists>d'. write_zero_extents env block_size es d = (d', Inr ())
     \<and> dst_data d' = foldl (\<lambda>f e. write_at (unat (StartBlock e) * unat block_size) (replicate (unat (NumBlocks e)) 0) f)
         (dst_data d) es"
    if "list_all (\<lambda>e. unat (StartBlock e) * unat block_size < 2 ^ 63
       \<and> int (unat (StartBlock e) * unat block_size) \<le> max_seek env
       \<and> unat (NumBlocks e) \<le> max_alloc env) es" for es
    using that
  proof (induction es arbitrary: d)
    case (Cons e es)
    let ?t = "unat (StartBlock e) * unat block_size"
    have "unat (StartBlock e * ucast block_size) = ?t"
      using Cons.prems by (simp add: unat_word_ariths)
    then have "sint (StartBlock e * ucast block_size) = int ?t"
      using Cons.prems sint_small [of "StartBlock e * ucast block_size"] by simp
    then have "dst_seek env (StartBlock e * ucast block_size) d = d\<lparr>dst_pos := ?t\<rparr>"
      using Cons.prems by (simp add: dst_seek_def nat_mult_distrib)
    then show ?case
      using Cons.IH [of "dst_write (replicate (unat (NumBlocks e)) 0) (d\<lparr>dst_pos := ?t\<rparr>)"] Cons.prems
      by (simp add: go_make_def dst_write_def)
  qed simp
  from this [OF assms(3)] show ?thesis
    using assms(1,2) by (simp add: write_data_def go_index_def)
qed

theorem zero_op_clears_bytes_witness:
  "\<exists>d'. write_data store_codecs (sample_env []) 4 (sample_op ZERO 1 2 1) [5, 5]
      \<lparr>dst_data = [1, 2, 3, 4, 5, 6, 7, 8], dst_pos = 0\<rparr> = (d', Inr ())
     \<and> dst_data d' = [1, 2, 3, 4, 0, 6, 7, 8]"
  using zero_op_clears_bytes [of "sample_op ZERO 1 2 1" 4 "sample_env []" store_codecs "[5, 5]"
      "\<lparr>dst_data = [1, 2, 3, 4, 5, 6, 7, 8], dst_pos = 0\<rparr>"]
  by (simp add: sample_op_def sample_env_def write_at_def)

end
