(* ===== verification/Main_Cli.thy ===== *)
theory Main_Cli
  imports Cpio_Cli Hex_Patch Dtb_Split Payload
begin

text \<open>
  \<open>magiskboot.go\<close>: \<open>CheckEnv\<close>, the list of formats in the usage text, \<open>cleanup\<close> and the
  dispatch of \<open>Main\<close> to the components. A run maps the regular files to the files afterwards,
  the file system calls of \<open>cpio extract\<close> and how the process ends; it is \<open>None\<close> when the
  run never ends. Messages on standard error are not part of the model.
\<close>

section \<open>Environment\<close>

text \<open>\<open>CpioBase\<close> holds what only the archive commands take from outside.\<close>

record main_env =
  MainCodecs :: codecs
  MapFile :: "bytes \<Rightarrow> bytes option"
  EnvVars :: "bytes \<Rightarrow> bytes option"
  Sha1 :: "bytes \<Rightarrow> bytes"
  PayloadEnv :: payload_env
  CpioBase :: cpio_env

definition CheckEnv :: "(bytes \<Rightarrow> bytes option) \<Rightarrow> bytes \<Rightarrow> bool" where
  "CheckEnv vars key =
     (case vars key of
        None \<Rightarrow> False
      | Some v \<Rightarrow> v = str ''true'')"

text \<open>
  The regular files are those of \<open>io\<close> and those that \<open>extract\<close> has created; what is no regular
  file has the attributes that \<open>CpioBase\<close> gives it.
\<close>

definition files_now :: "main_env \<Rightarrow> io \<Rightarrow> fs_hist \<Rightarrow> (bytes \<rightharpoonup> bytes)" where
  "files_now env w h = files_after (SysOk (CpioBase env)) h (Files w)"

lemma files_now_Nil [simp]: "files_now env w [] = Files w"
  by (simp add: files_now_def)

definition regular_attr :: "bytes \<Rightarrow> file_attr" where
  "regular_attr c = \<lparr>IsRegular = True, IsSymlink = False, IsDevice = False, IsCharDevice = False,
     FileData = Some c, Rdev = None\<rparr>"

definition cpio_env_of :: "main_env \<Rightarrow> io \<Rightarrow> cpio_env" where
  "cpio_env_of env w =
     (CpioBase env)\<lparr>Codecs := MainCodecs env,
        MappedFiles := (\<lambda>h f. Option.bind (files_now env w h f) (MapFile env)),
        Attrs := (\<lambda>h f. case files_now env w h f of
          Some c \<Rightarrow> Some (regular_attr c)
        | None \<Rightarrow> Attrs (CpioBase env) h f),
        KeepVerity := CheckEnv (EnvVars env) (str ''KEEPVERITY''),
        KeepForceEncrypt := CheckEnv (EnvVars env) (str ''KEEPFORCEENCRYPT'')\<rparr>"

section \<open>Usage\<close>

definition printed_formats :: "format_t list" where
  "printed_formats = filter (\<lambda>f. GZIP \<le> f \<and> f < LZOP) format_list"

definition printFormats :: bytes where
  "printFormats = concat (map (\<lambda>f. Fmt2Name f @ str '' '') printed_formats)"

definition Usage :: "unit go" where
  "Usage = Inl (Exit 1)"

section \<open>Actions\<close>

definition HEADER_FILE :: bytes where "HEADER_FILE = str ''header''"
definition RAMDISK_FILE :: bytes where "RAMDISK_FILE = str ''ramdisk.cpio''"
definition VND_RAMDISK_DIR :: bytes where "VND_RAMDISK_DIR = str ''vendor_ramdisk''"
definition SECOND_FILE :: bytes where "SECOND_FILE = str ''second''"
definition EXTRA_FILE :: bytes where "EXTRA_FILE = str ''extra''"
definition RECV_DTBO_FILE :: bytes where "RECV_DTBO_FILE = str ''recovery_dtbo''"
definition DTB_FILE :: bytes where "DTB_FILE = str ''dtb''"
definition BOOTCONFIG_FILE :: bytes where "BOOTCONFIG_FILE = str ''bootconfig''"

text \<open>\<open>os.RemoveAll\<close>: the path and what lies below it.\<close>

definition below_or_at :: "bytes \<Rightarrow> bytes \<Rightarrow> bool" where
  "below_or_at dir f \<longleftrightarrow> f = dir \<or> has_prefix f (dir @ str ''/'')"

definition os_RemoveAll :: "bytes \<Rightarrow> io \<Rightarrow> io" where
  "os_RemoveAll dir w = w\<lparr>Files := (\<lambda>f. if below_or_at dir f then None else Files w f)\<rparr>"

definition cleanup_files :: "bytes list" where
  "cleanup_files = [HEADER_FILE, KERNEL_FILE, RAMDISK_FILE, SECOND_FILE, KER_DTB_FILE, EXTRA_FILE, RECV_DTBO_FILE,
     DTB_FILE, BOOTCONFIG_FILE]"

definition cleanup :: "io \<Rightarrow> io" where
  "cleanup w = os_RemoveAll VND_RAMDISK_DIR (fold os_Remove cleanup_files w)"

text \<open>The verb \<open>%x\<close> of a byte slice.\<close>

definition hex_string :: "bytes \<Rightarrow> bytes" where
  "hex_string bs = concat (map (\<lambda>b. [hex_digit (unat b div 16), hex_digit (unat b mod 16)]) bs)"

definition sha1_command :: "main_env \<Rightarrow> io \<Rightarrow> bytes \<Rightarrow> io \<times> unit go" where
  "sha1_command env w path =
     (case Files w path of
        None \<Rightarrow> (w, Inl Fatal)
      | Some c \<Rightarrow> (w\<lparr>Stdout := Stdout w @ hex_string (Sha1 env c) @ [10]\<rparr>, Inr ()))"

definition exit_bool :: "bool go \<Rightarrow> unit go" where
  "exit_bool r = (case r of Inl e \<Rightarrow> Inl e | Inr b \<Rightarrow> Inl (Exit (if b then 0 else 1)))"

definition exit_int :: "int go \<Rightarrow> unit go" where
  "exit_int r = (case r of Inl e \<Rightarrow> Inl e | Inr n \<Rightarrow> Inl (Exit n))"

definition split_command :: "main_env \<Rightarrow> io \<Rightarrow> bytes list \<Rightarrow> (io \<times> unit go) option" where
  "split_command env w args =
     (let split = (\<lambda>path skip. map_option (\<lambda>(w', r). (w', exit_int r))
            (SplitImageDtb (MainCodecs env) (MapFile env) w path skip))
      in if args ! 2 = str ''-n'' then
           (if length args = 3 then Some (w, Usage) else split (args ! 3) True)
         else split (args ! 2) False)"

definition hexpatch_command :: "main_env \<Rightarrow> io \<Rightarrow> bytes list \<Rightarrow> io \<times> unit go" where
  "hexpatch_command env w args =
     (case HexPatch (MapFile env) (Files w (args ! 2)) (args ! 3) (args ! 4) of
        (c, r) \<Rightarrow> (w\<lparr>Files := (Files w)(args ! 2 := c)\<rparr>, exit_bool r))"

definition cpio_command :: "main_env \<Rightarrow> io \<Rightarrow> bytes list \<Rightarrow> (io \<times> fs_hist) \<times> unit go" where
  "cpio_command env w args =
     (case CpioCommands (cpio_env_of env w) (\<lambda>f. Files w f \<noteq> None) (CanCreate w (args ! 2)) (drop 2 args) of
        (written, s, r) \<Rightarrow>
          ((w\<lparr>Files := (let fs = files_now env w (FsCalls s) in
                case written of None \<Rightarrow> fs | Some c \<Rightarrow> fs(args ! 2 \<mapsto> c)),
              Stdout := Stdout w @ Printed s\<rparr>, FsCalls s),
           case r of Inl e \<Rightarrow> Inl e | Inr _ \<Rightarrow> Inl (Exit 0)))"

text \<open>An argument that may be absent is the empty string.\<close>

definition opt_arg :: "bytes list \<Rightarrow> nat \<Rightarrow> bytes" where
  "opt_arg args i = (if i < length args then args ! i else [])"

definition compress_method :: "bytes \<Rightarrow> bytes" where
  "compress_method action = (if 8 < length action \<and> action ! 8 = 61 then drop 9 action else str ''gzip'')"

section \<open>Dispatch\<close>

definition not_impl :: "unit go" where
  "not_impl = Inl (Panic PanicCall)"

definition pure_run :: "io \<times> unit go \<Rightarrow> ((io \<times> fs_hist) \<times> unit go) option" where
  "pure_run r = Some ((fst r, []), snd r)"

definition Main :: "main_env \<Rightarrow> io \<Rightarrow> bytes list \<Rightarrow> ((io \<times> fs_hist) \<times> unit go) option" where
  "Main env w args =
     (if length args < 2 then pure_run (w, Usage)
      else
        let action = trim_left (args ! 1) (str ''-'') in
        if action = str ''cleanup'' then pure_run (cleanup w, Inr ())
        else if length args > 2 \<and> action = str ''sha1'' then pure_run (sha1_command env w (args ! 2))
        else if length args > 2 \<and> action = str ''split'' then
          (case split_command env w args of None \<Rightarrow> None | Some r \<Rightarrow> pure_run r)
        else if length args > 2 \<and> action = str ''unpack'' then pure_run (w, not_impl)
        else if length args > 2 \<and> action = str ''repack'' then pure_run (w, not_impl)
        else if length args > 2 \<and> action = str ''verify'' then pure_run (w, not_impl)
        else if length args > 2 \<and> action = str ''sign'' then
          pure_run (w, if length args = 5 then Usage else not_impl)
        else if length args > 2 \<and> action = str ''decompress'' then
          pure_run (Decompress (MainCodecs env) w (args ! 2) (opt_arg args 3))
        else if length args > 2 \<and> has_prefix action (str ''compress'') then
          pure_run (Compress (MainCodecs env) w (compress_method action) (args ! 2) (opt_arg args 3))
        else if length args > 4 \<and> action = str ''hexpatch'' then pure_run (hexpatch_command env w args)
        else if length args > 2 \<and> action = str ''cpio'' then Some (cpio_command env w args)
        else if length args > 2 \<and> action = str ''dtb'' then pure_run (w, not_impl)
        else if length args > 2 \<and> action = str ''extract'' then
          (case ExtractBootFromPayload (MainCodecs env) (PayloadEnv env) w (args ! 2) (opt_arg args 3) (opt_arg args 4) of
             (w', r) \<Rightarrow> pure_run (w', exit_bool r))
        else pure_run (w, Usage))"

text \<open>The status the process ends with.\<close>

fun exit_status :: "unit go \<Rightarrow> int" where
  "exit_status (Inr _) = 0"
| "exit_status (Inl (Exit n)) = n"
| "exit_status (Inl Fatal) = 1"
| "exit_status (Inl (Err _)) = 1"
| "exit_status (Inl (Panic _)) = 2"

section \<open>The dispatch, action by action\<close>

definition action_of :: "bytes list \<Rightarrow> bytes" where
  "action_of args = trim_left (args ! 1) (str ''-'')"

lemma Main_usage: "length args < 2 \<Longrightarrow> Main env w args = Some ((w, []), Inl (Exit 1))"
  by (simp add: Main_def pure_run_def Usage_def)

lemma str_append_eq: "str s @ m = str t \<longleftrightarrow> has_prefix t s \<and> m = str (drop (length s) t)"
proof
  assume e: "str s @ m = str t"
  then have "take (length s) (str t) = str s" "drop (length s) (str t) = m"
    by (metis append_eq_conv_conj length_str)+
  moreover have "take (length s) (str t) = str (take (length s) t)" "drop (length s) (str t) = str (drop (length s) t)"
    by (simp_all add: str_def take_map drop_map)
  ultimately show "has_prefix t s \<and> m = str (drop (length s) t)" by (simp add: has_prefix_def str_eq_iff)
next
  assume "has_prefix t s \<and> m = str (drop (length s) t)"
  then show "str s @ m = str t" by (auto simp: has_prefix_iff str_append)
qed

lemma Main_actions:
  assumes "2 < length args"
  shows "action_of args = str ''split'' \<Longrightarrow>
      Main env w args = (case split_command env w args of None \<Rightarrow> None | Some r \<Rightarrow> pure_run r)"
    and "action_of args = str ''decompress'' \<Longrightarrow>
      Main env w args = pure_run (Decompress (MainCodecs env) w (args ! 2) (opt_arg args 3))"
    and "action_of args = str ''cpio'' \<Longrightarrow> Main env w args = Some (cpio_command env w args)"
  using assms by (simp_all add: Main_def Let_def action_of_def str_simps)

lemma Main_compress:
  assumes "2 < length args" "action_of args = str ''compress='' @ m"
  shows "Main env w args = pure_run (Compress (MainCodecs env) w m (args ! 2) (opt_arg args 3))"
proof -
  have e: "str ''compress='' @ m = str ''compress'' @ 61 # m" by (simp add: str_def)
  have "compress_method (str ''compress='' @ m) = m" "has_prefix (str ''compress='' @ m) (str ''compress'')"
    by (simp_all add: e compress_method_def nth_append)
  with assms show ?thesis
    by (simp add: Main_def Let_def action_of_def str_append_eq)
qed

lemma Main_cleanup_action:
  "action_of (p # a # rest) = str ''cleanup'' \<Longrightarrow> Main env w (p # a # rest) = Some ((cleanup w, []), Inr ())"
  by (simp add: Main_def Let_def action_of_def pure_run_def)

lemma trim_left_dashes: "trim_left (replicate n 45 @ a) (str ''-'') = trim_left a (str ''-'')"
  by (induction n) (simp_all add: trim_left_def str_def)

text \<open>An environment to run the program in.\<close>

definition sample_main :: main_env where
  "sample_main = \<lparr>MainCodecs = store_codecs, MapFile = Some, EnvVars = (\<lambda>_. None), Sha1 = (\<lambda>_. []),
     PayloadEnv = sample_env [], CpioBase = default_env\<rparr>"

lemma if_returns: "(b \<Longrightarrow> x \<noteq> None) \<Longrightarrow> (\<not> b \<Longrightarrow> y \<noteq> None) \<Longrightarrow> (if b then x else y) \<noteq> None"
  by simp

lemma pure_run_returns: "pure_run r \<noteq> None"
  by (simp add: pure_run_def)

lemma Main_returns: "length args \<le> 2 \<or> action_of args \<noteq> str ''split'' \<Longrightarrow> Main env w args \<noteq> None"
  unfolding Main_def Let_def action_of_def
  by (intro if_returns pure_run_returns) (auto simp del: not_None_eq simp: pure_run_returns split: prod.split)

lemma split_command_hangs:
  "split_command env w args = None \<longleftrightarrow>
     (let skip = (args ! 2 = str ''-n'') in
      \<not> (skip \<and> length args = 3)
      \<and> SplitImageDtb (MainCodecs env) (MapFile env) w (if skip then args ! 3 else args ! 2) skip = None)"
  by (simp add: split_command_def Let_def)

text \<open>
  C15. Which command lines never end, when files are mapped to their contents and are smaller than
  4 GiB: \<open>split\<close> of an image in which the first magic number of a device tree belongs to none (and is
  not within the last 40 bytes), or in which a device tree follows a legacy LZ4 frame whose
  blocks end with the file. Every other run returns or ends the process.
\<close>

theorem Main_hangs_iff:
  assumes "\<forall>f img. Files w f = Some img \<longrightarrow> length img < 2 ^ 32" "\<forall>b m. MapFile env b = Some m \<longrightarrow> m = b"
  shows "Main env w args = None \<longleftrightarrow>
     2 < length args \<and> action_of args = str ''split''
     \<and> (let skip = (args ! 2 = str ''-n'') in
        \<not> (skip \<and> length args = 3)
        \<and> (\<exists>img. Files w (if skip then args ! 3 else args ! 2) = Some img \<and> MapFile env img = Some img
            \<and> split_hangs img))"
proof (cases "2 < length args \<and> action_of args = str ''split''")
  case False
  then have "Main env w args \<noteq> None" by (intro Main_returns) auto
  with False show ?thesis by blast
next
  case True
  then have "Main env w args = None \<longleftrightarrow> split_command env w args = None"
    using Main_actions(1) [of args env w] by (auto simp: pure_run_returns split: option.split)
  moreover have "SplitImageDtb (MainCodecs env) (MapFile env) w name skip = None \<longleftrightarrow>
      (\<exists>img. Files w name = Some img \<and> MapFile env img = Some img \<and> split_hangs img)" for name skip
  proof (cases "\<exists>img. Files w name = Some img \<and> MapFile env img = Some img")
    case found: True
    then obtain img where f: "Files w name = Some img" "MapFile env img = Some img" by blast
    then have "length img < 2 ^ 32" using assms(1) by blast
    from SplitImageDtb_hangs_iff [where mmap = "MapFile env", OF f this] f show ?thesis by simp
  next
    case missing: False
    with assms(2) have "Files w name = None \<or> (\<exists>img. Files w name = Some img \<and> MapFile env img = None)"
      by (cases "Files w name"; cases "MapFile env (the (Files w name))") auto
    with missing show ?thesis by (auto simp: SplitImageDtb_def)
  qed
  ultimately show ?thesis using True by (simp add: split_command_hangs Let_def)
qed

definition stray_magic :: bytes where
  "stray_magic = DTB_MAGIC @ replicate 60 0"

theorem Main_hangs_iff_witness:
  "Main sample_main (split_io stray_magic) [str ''magiskboot'', str ''split'', str ''-n'', str ''img''] = None
   \<and> Main sample_main (split_io stray_magic) [str ''magiskboot'', str ''split'', str ''-n'', str ''kernel''] \<noteq> None"
proof -
  have l: "length stray_magic = 64" by (simp add: stray_magic_def DTB_MAGIC_def)
  have "index_of stray_magic DTB_MAGIC = Some 0" by code_simp
  moreover have "dtb_check stray_magic 64 0 = Inr False" by code_simp
  ultimately have h: "split_hangs stray_magic" by (simp add: split_hangs_def l)
  have small: "\<forall>f img. Files (split_io stray_magic) f = Some img \<longrightarrow> length img < 2 ^ 32"
    by (simp add: split_io_def l)
  have m: "\<forall>b m. MapFile sample_main b = Some m \<longrightarrow> m = b" by (simp add: sample_main_def)
  have a: "action_of [str ''magiskboot'', str ''split'', str ''-n'', x] = str ''split''" for x
    by (simp add: action_of_def trim_left_str) (simp add: trim_left_def)
  show ?thesis
    using h unfolding Main_hangs_iff [OF small m]
    by (simp add: a str_simps) (simp add: split_io_def sample_main_def str_simps)
qed

lemma Files_fold_Remove: "Files (fold os_Remove fs w) f = (if f \<in> set fs then None else Files w f)"
  by (induction fs arbitrary: w) (auto simp: os_Remove_def)

lemma fold_Remove_rest: "(fold os_Remove fs w)\<lparr>Files := F\<rparr> = w\<lparr>Files := F\<rparr>"
  by (induction fs arbitrary: w) (simp_all add: os_Remove_def)

text \<open>
  \<open>cleanup\<close>, written with any number of leading dashes and whatever follows, always succeeds, and
  removes exactly the nine component files and the directory \<open>vendor_ramdisk\<close> with all that
  lies below it.
\<close>

theorem Main_cleanup:
  "Main env w (p # (replicate n 45 @ str ''cleanup'') # rest) =
     Some ((w\<lparr>Files := (\<lambda>f. if f \<in> set cleanup_files \<or> below_or_at (str ''vendor_ramdisk'') f then None else Files w f)\<rparr>,
       []), Inr ())"
proof -
  have "trim_left (str ''cleanup'') (str ''-'') = str ''cleanup''"
    by code_simp
  then have "action_of (p # (replicate n 45 @ str ''cleanup'') # rest) = str ''cleanup''"
    by (simp add: action_of_def trim_left_dashes)
  moreover have "cleanup w =
      w\<lparr>Files := (\<lambda>f. if f \<in> set cleanup_files \<or> below_or_at (str ''vendor_ramdisk'') f then None else Files w f)\<rparr>"
    unfolding cleanup_def os_RemoveAll_def fold_Remove_rest Files_fold_Remove VND_RAMDISK_DIR_def
    by (rule arg_cong [of _ _ "\<lambda>F. w\<lparr>Files := F\<rparr>"]) auto
  ultimately show ?thesis by (simp add: Main_cleanup_action)
qed

text \<open>
  The usage text lists the formats by their names; each name is understood, and each format
  but \<open>zopfli\<close> has an encoder: \<open>compress=zopfli\<close> panics.
\<close>

theorem usage_formats:
  "printFormats = str ''gzip zopfli xz lzma bzip2 lz4 lz4_legacy lz4_lg ''
   \<and> list_all (\<lambda>f. Name2Fmt (Fmt2Name f) = f) printed_formats
   \<and> filter (\<lambda>f. NewEncoder f = Inl (Panic PanicCall)) printed_formats = [ZOPFLI]"
proof -
  have p: "printed_formats = [GZIP, ZOPFLI, XZ, LZMA, BZIP2, LZ4, LZ4_LEGACY, LZ4_LG]"
    by code_simp
  have "printFormats = str ''gzip zopfli xz lzma bzip2 lz4 lz4_legacy lz4_lg ''"
    unfolding printFormats_def p by (simp add: str_def)
  moreover have "list_all (\<lambda>f. Name2Fmt (Fmt2Name f) = f) printed_formats"
    unfolding p list.pred_inject by (intro conjI TrueI Name2Fmt_Fmt2Name) (simp_all add: COMPRESSED_iff)
  ultimately show ?thesis unfolding p by simp
qed

text \<open>The actions of the usage text that only panic.\<close>

theorem documented_but_missing:
  assumes "2 < length args" "action_of args \<in> {str ''unpack'', str ''repack'', str ''verify'', str ''dtb''}
     \<or> action_of args = str ''sign'' \<and> length args \<noteq> 5"
  shows "Main env w args = Some ((w, []), Inl (Panic PanicCall))"
  using assms by (auto simp: Main_def Let_def action_of_def pure_run_def not_impl_def str_simps)

end
