(* ===== verification/Exit_Status.thy ===== *)
theory Exit_Status
  imports Main_Cli
begin

text \<open>
  How runs end. \<open>ends_by P r\<close> says that \<open>r\<close> is a value or stops in a way that satisfies \<open>P\<close>. The lemmas
  follow the composition of the program: the components stop by a panic or \<open>log.Fatal\<close>, some
  also with a Go error; the callers turn every error into an exit.
\<close>

definition ends_by :: "(go_exit \<Rightarrow> bool) \<Rightarrow> 'a go \<Rightarrow> bool" where
  "ends_by P r \<longleftrightarrow> (case r of Inl e \<Rightarrow> P e | Inr _ \<Rightarrow> True)"

text \<open>A panic or \<open>log.Fatal\<close>; that or a Go error; that or an exit status of the program.\<close>

fun abrupt :: "go_exit \<Rightarrow> bool" where
  "abrupt (Err _) = False"
| "abrupt (Panic _) = True"
| "abrupt Fatal = True"
| "abrupt (Exit _) = False"

fun no_exit :: "go_exit \<Rightarrow> bool" where
  "no_exit (Exit _) = False"
| "no_exit _ = True"

fun final :: "go_exit \<Rightarrow> bool" where
  "final (Err _) = False"
| "final (Panic _) = True"
| "final Fatal = True"
| "final (Exit n) = (n \<in> {0, 1, 2, 125})"

named_theorems ends_intros "how the parts of a run end"

lemma ends_by_simps [simp]: "ends_by P (Inr x)" "ends_by P (Inl e) \<longleftrightarrow> P e"
  by (simp_all add: ends_by_def)

lemma ends_by_mono: "ends_by P r \<Longrightarrow> (\<And>e. P e \<Longrightarrow> Q e) \<Longrightarrow> ends_by Q r"
  by (cases r) simp_all

lemma abrupt_no_exit: "abrupt e \<Longrightarrow> no_exit e"
  by (cases e) simp_all

lemma abrupt_final: "abrupt e \<Longrightarrow> final e"
  by (cases e) simp_all

lemmas ends_no_exit = ends_by_mono [OF _ abrupt_no_exit]
lemmas ends_final = ends_by_mono [OF _ abrupt_final]

lemma ends_go_bind [ends_intros]:
  "ends_by P m \<Longrightarrow> (\<And>x. ends_by P (f x)) \<Longrightarrow> ends_by P (go_bind m f)"
  by (cases m) simp_all

lemma ends_if [ends_intros]:
  "(b \<Longrightarrow> ends_by P x) \<Longrightarrow> (\<not> b \<Longrightarrow> ends_by P y) \<Longrightarrow> ends_by P (if b then x else y)"
  by simp

lemma ends_option [ends_intros]:
  "ends_by P x \<Longrightarrow> (\<And>v. ends_by P (f v)) \<Longrightarrow> ends_by P (case q of None \<Rightarrow> x | Some v \<Rightarrow> f v)"
  by (cases q) simp_all

lemma ends_go_index [ends_intros]: "P (Panic IndexOutOfRange) \<Longrightarrow> ends_by P (go_index xs i)"
  by (simp add: go_index_def)

lemma ends_go_slice [ends_intros]: "P (Panic SliceOutOfRange) \<Longrightarrow> ends_by P (go_slice xs i j)"
  by (simp add: go_slice_def)

lemma ends_go_map: "(\<And>x. ends_by P (f x)) \<Longrightarrow> ends_by P (go_map f xs)"
  by (induction xs) (simp_all add: ends_go_bind)

section \<open>Formats and codecs\<close>

lemma ends_checked_any: "ends_by abrupt (checked_any buf spare ps)"
  by (induction ps) (auto simp: checked_match_def intro!: ends_intros)

lemma ends_CheckFmt [ends_intros]: "ends_by abrupt (CheckFmt buf spare)"
  unfolding CheckFmt_def by (intro ends_intros ends_checked_any) simp_all

lemma ends_NewEncoder: "ends_by abrupt (NewEncoder t)"
  by (cases t) simp_all

lemma ends_Lz4HC_writes: "ends_by abrupt (snd (Lz4HC_writes cs z ws))"
  by (induction ws arbitrary: z)
    (auto simp: Lz4HC_Write_def Let_def split: option.split prod.split sum.split)

lemma ends_run_encoder: "ends_by abrupt (snd (run_encoder cs t ws))"
  using ends_NewEncoder [of t] ends_Lz4HC_writes [of cs]
  by (auto simp: run_encoder_def split: sum.split encoder.split option.split prod.split) (metis ends_by_simps(2) snd_conv)

lemma ends_run_decoder: "ends_by abrupt (snd (run_decoder cs t s))"
  by (auto simp: run_decoder_def split: option.split prod.split)

lemma ends_Decode: "ends_by no_exit (Decode cs t s)"
  by (auto simp: Decode_def split: option.split)

lemma ends_DecompressToFd: "ends_by abrupt (DecompressToFd cs data spare)"
  unfolding DecompressToFd_def by (intro ends_intros) (auto split: sum.split)

lemma ends_Unxz [ends_intros]: "ends_by abrupt (Unxz cs data spare)"
  unfolding Unxz_def by (intro ends_intros) (auto split: prod.split)

lemma ends_os_Create: "ends_by abrupt (os_Create f w)"
  by (simp add: os_Create_def)

lemma ends_compress_out: "ends_by abrupt (compress_out w t infile outfile)"
  unfolding compress_out_def by (intro ends_intros ends_os_Create) simp_all

text \<open>The functions that return a state as well: the second part of a pair.\<close>

lemma ends_snd_if [ends_intros]:
  "(b \<Longrightarrow> ends_by P (snd x)) \<Longrightarrow> (\<not> b \<Longrightarrow> ends_by P (snd y)) \<Longrightarrow> ends_by P (snd (if b then x else y))"
  by simp

lemma ends_snd_go [ends_intros]:
  "ends_by P m \<Longrightarrow> (\<And>e. P e \<Longrightarrow> ends_by P (snd (f e))) \<Longrightarrow> (\<And>x. ends_by P (snd (g x))) \<Longrightarrow>
   ends_by P (snd (case m of Inl e \<Rightarrow> f e | Inr x \<Rightarrow> g x))"
  by (cases m) simp_all

lemma ends_snd_state [ends_intros]:
  "ends_by P (snd p) \<Longrightarrow> (\<And>s e. P e \<Longrightarrow> ends_by P (snd (f s e))) \<Longrightarrow> (\<And>s x. ends_by P (snd (g s x))) \<Longrightarrow>
   ends_by P (snd (case p of (s, Inl e) \<Rightarrow> f s e | (s, Inr x) \<Rightarrow> g s x))"
  by (cases p; cases "snd p") auto

lemma ends_snd_option [ends_intros]:
  "ends_by P (snd x) \<Longrightarrow> (\<And>v. ends_by P (snd (f v))) \<Longrightarrow> ends_by P (snd (case q of None \<Rightarrow> x | Some v \<Rightarrow> f v))"
  by (cases q) simp_all

lemma ends_snd_prod [ends_intros]:
  "(\<And>x y. p = (x, y) \<Longrightarrow> ends_by P (snd (f x y))) \<Longrightarrow> ends_by P (snd (case p of (x, y) \<Rightarrow> f x y))"
  by (cases p) simp

lemma ends_Compress: "ends_by abrupt (snd (Compress cs w method infile outfile))"
  unfolding Compress_def Let_def
  by (intro ends_intros ends_compress_out ends_run_encoder) (simp_all split: prod.split)

lemma ends_first_read: "ends_by abrupt (first_read w infile)"
  by (auto simp: first_read_def Let_def split: list.split option.split)

lemma ends_decompress_name: "ends_by abrupt (decompress_name t infile outfile)"
  by (simp add: decompress_name_def)

lemma ends_Decompress: "ends_by abrupt (snd (Decompress cs w infile outfile))"
  unfolding Decompress_def
  by (intro ends_intros ends_first_read ends_decompress_name ends_os_Create ends_run_decoder) simp_all

section \<open>Hex patching, splitting, payloads\<close>

lemma ends_match_loop: "ends_by abrupt (match_loop m i fs)"
  by (induction fs arbitrary: i) (auto intro!: ends_intros)

lemma ends_hex_match: "ends_by abrupt (hex_match f m i)"
  unfolding hex_match_def by (intro ends_intros ends_match_loop) simp_all

lemma ends_hex_loop: "ends_by abrupt (snd (hex_loop f t n i m p))"
proof (induction n arbitrary: i m p)
  case (Suc n)
  show ?case unfolding hex_loop.simps by (intro ends_intros ends_hex_match Suc) simp_all
qed simp

lemma ends_HexPatch: "ends_by abrupt (snd (HexPatch mmap content from to_s))"
  using ends_hex_loop by (auto simp: HexPatch_def split: option.split prod.split) (metis snd_conv)

lemma ends_dtb_check: "ends_by abrupt (dtb_check fmap sz c)"
  unfolding dtb_check_def Let_def by (intro ends_intros) simp_all

lemma ends_findDtbOffset: "findDtbOffset fmap sz = Some r \<Longrightarrow> ends_by abrupt r"
  unfolding findDtbOffset_def
  by (erule find_dtb_loop.raw_induct [where P = "\<lambda>m s k r. ends_by abrupt r", rotated])
    (auto split: if_splits option.splits sum.splits dest: arg_cong [of _ _ "ends_by abrupt"] simp: ends_dtb_check)

lemma ends_checkFmtLg: "checkFmtLg fmap sz = Some r \<Longrightarrow> ends_by abrupt r"
  by (auto simp: checkFmtLg_def split: sum.splits if_splits dest: arg_cong [of _ _ "ends_by abrupt"] simp: ends_CheckFmt)

lemma ends_read_mapped: "ends_by abrupt (read_mapped mapped f bs)"
  by (simp add: read_mapped_def)

lemma ends_dump: "ends_by abrupt (snd (dump w mapped buf n f))"
  unfolding dump_def by (intro ends_intros ends_os_Create ends_read_mapped) simp_all

lemma ends_decompress: "ends_by abrupt (decompress cs t s)"
  unfolding decompress_def by (intro ends_intros) (auto split: prod.split)

lemma ends_decompress_kernel: "ends_by abrupt (snd (decompress_kernel cs w mapped f s))"
  unfolding decompress_kernel_def by (intro ends_intros ends_os_Create ends_read_mapped ends_decompress) simp_all

lemma ends_SplitImageDtb:
  assumes "SplitImageDtb cs mmap w f skip = Some (w', r)"
  shows "ends_by final (exit_int r)"
proof -
  define P where "P \<equiv> \<lambda>q :: (io \<times> int go) option. case q of None \<Rightarrow> True | Some (w', r) \<Rightarrow> ends_by final (exit_int r)"
  have P_None: "P None" and P_err: "\<And>w e. abrupt e \<Longrightarrow> P (Some (w, Inl e))"
    and P_end: "\<And>w' n. n \<in> {0, 1} \<Longrightarrow> P (Some (w', Inr n))"
    by (auto simp: P_def exit_int_def abrupt_final)
  have P_go: "P (case m of None \<Rightarrow> None | Some (Inl e) \<Rightarrow> Some (w, Inl e) | Some (Inr x) \<Rightarrow> g x)"
    if "\<And>r. m = Some r \<Longrightarrow> ends_by abrupt r" "\<And>x. P (g x)" for m :: "'x go option" and w g
    using that P_None P_err by (cases m; cases "the m") fastforce+
  have P_state: "P (case p of (w1, Inl e) \<Rightarrow> Some (w1, Inl e) | (w1, Inr x) \<Rightarrow> g w1 x)"
    if "ends_by abrupt (snd p)" "\<And>w1 x. P (g w1 x)" for p :: "io \<times> unit go" and g
    using that P_err by (cases p; cases "snd p") auto
  have P_opt: "P (case q of None \<Rightarrow> Some (w, Inl Fatal) | Some v \<Rightarrow> g v)" if "\<And>v. P (g v)" for q :: "'x option" and w g
    using that P_err by (cases q) auto
  have P_if: "P (if b then x else y)" if "P x" "P y" for b x y using that by simp
  have "P (SplitImageDtb cs mmap w f skip)"
    unfolding SplitImageDtb_def Let_def
    by (intro P_opt P_go P_if P_state P_end ends_snd_if ends_dump ends_decompress_kernel)
      (auto intro: ends_findDtbOffset ends_checkFmtLg)
  with assms show ?thesis by (simp add: P_def)
qed

lemma ends_read_manifest: "ends_by no_exit (read_manifest env s)"
  unfolding read_manifest_def go_make_def Let_def
  by (auto split: prod.split intro!: ends_intros)

lemma ends_select_partition: "ends_by no_exit (select_partition n m)"
  unfolding select_partition_def Let_def by (intro ends_intros) simp_all

lemma ends_write_zero_extents: "ends_by no_exit (snd (write_zero_extents env b exts d))"
  by (induction exts arbitrary: d) (auto simp: go_make_def Let_def)

lemma ends_write_data: "ends_by no_exit (snd (write_data cs env b operation buf d))"
  unfolding write_data_def Let_def
  by (auto split: op_type.split prod.split intro!: ends_intros ends_write_zero_extents ends_no_exit [OF ends_DecompressToFd])

lemma ends_run_op: "ends_by no_exit (snd (run_op cs env b operation st))"
  unfolding run_op_def go_make_def Let_def
  by (auto split: prod.split intro!: ends_intros) (metis ends_write_data snd_conv)

lemma ends_run_ops: "ends_by no_exit (snd (run_ops shared cs env b ops (s, c, d)))"
proof (induction ops arbitrary: s c d)
  case (Cons operation ops)
  show ?case
    using ends_run_op [of cs env b operation "(seen_by_reader shared d s, c, d)"] Cons
    by (auto split: prod.split sum.split)
qed simp

lemma ends_run_ops_eq: "run_ops shared cs env b ops (s, c, d) = (d', r) \<Longrightarrow> ends_by no_exit r"
  using ends_run_ops [of shared cs env b ops s c d] by simp

lemma ends_doExtract: "ends_by no_exit (snd (doExtractBootFromPayload cs env w i n out))"
proof -
  have "ends_by no_exit (open_source w i)" by (simp add: open_source_def split: option.split)
  then have "ends_by no_exit (go_bind (open_source w i) (read_manifest env))"
    by (intro ends_go_bind ends_read_manifest)
  then show ?thesis
    unfolding doExtractBootFromPayload_def Let_def
    by (auto split: prod.split intro!: ends_intros ends_select_partition dest: ends_run_ops_eq)
qed

lemma ends_Extract: "ends_by abrupt (snd (ExtractBootFromPayload cs env w i n out))"
  using ends_doExtract [of cs env w "trim_right i [32]" "trim_right n [32]" "trim_right out [32]"]
  by (auto simp: ExtractBootFromPayload_def split: prod.splits sum.splits go_exit.splits)

lemma ends_exit_bool: "ends_by abrupt r \<Longrightarrow> ends_by final (exit_bool r)"
  by (cases r) (simp_all add: exit_bool_def abrupt_final)

section \<open>Archive commands\<close>

lemma ends_fatal_err: "ends_by no_exit r \<Longrightarrow> ends_by abrupt (fatal_err r)"
  by (auto simp: fatal_err_def ends_by_def split: sum.splits go_exit.splits)

lemma ends_drop_error: "ends_by no_exit r \<Longrightarrow> ends_by abrupt (drop_error r)"
  by (auto simp: drop_error_def ends_by_def split: sum.splits go_exit.splits)

lemma ends_patchFstab: "ends_by abrupt (patchFstab content patterns)"
proof -
  have "ends_by abrupt (patch_line patterns line)" for line
    unfolding patch_line_def Let_def by (intro ends_intros) simp_all
  then show ?thesis unfolding patchFstab_def by (intro ends_intros ends_go_map) simp_all
qed

lemma ends_patch_step: "ends_by abrupt (snd (patch_step kv kf name s))"
proof -
  have v: "ends_by abrupt (PatchVerity d)" and e: "ends_by abrupt (PatchEncryption d)" for d
    by (simp_all add: PatchVerity_def PatchEncryption_def ends_patchFstab)
  show ?thesis
    unfolding patch_step_def Let_def by (intro ends_intros v e) simp_all
qed

lemma ends_Patch: "ends_by abrupt (snd (Patch kv kf c))"
proof -
  have "ends_by abrupt (snd (patch_loop kv kf is s))" for "is" s
  proof (induction "is" arbitrary: s)
    case (Cons i "is")
    show ?case unfolding patch_loop.simps by (intro ends_intros ends_patch_step Cons) simp_all
  qed simp
  then show ?thesis by (auto simp: Patch_def split: prod.split) (metis snd_conv)
qed

lemma ends_Decompress_entry: "ends_by abrupt (Decompress_entry cs spare e)"
  unfolding Decompress_entry_def by (intro ends_intros) simp_all

lemma ends_restored: "ends_by abrupt (restored cs spare name e)"
  unfolding restored_def
  by (auto split: prod.split intro!: ends_intros ends_Decompress_entry)

lemma ends_restore_step: "ends_by abrupt (restore_step cs spare c name acc)"
  unfolding restore_step_def Let_def
  by (auto split: prod.split intro!: ends_intros ends_restored)

lemma ends_Restore: "ends_by abrupt (snd (Restore cs spare c))"
proof -
  have "ends_by abrupt (restore_scan cs spare c names acc)" for names acc
    by (induction names arbitrary: acc) (simp_all add: ends_go_bind ends_restore_step)
  then show ?thesis
    unfolding Restore_def Let_def by (intro ends_intros) (auto split: prod.split)
qed

lemma ends_LoadFromFile: "ends_by no_exit (snd (LoadFromFile files path c))"
proof (cases "files path")
  case (Some m)
  obtain c' r where l: "LoadFromData c m = (c', r)" by (cases "LoadFromData c m")
  then have "ends_by no_exit r"
    using load_loop_outcomes [of m 0 c c' r] by (auto simp: LoadFromData_def load_errors_def ends_by_def split: sum.split)
  then have "ends_by no_exit (drop_error r)" by (intro ends_no_exit [OF ends_drop_error])
  with Some l show ?thesis by (simp add: LoadFromFile_def)
qed (simp add: LoadFromFile_def)

lemma ends_Backup:
  assumes "ends_by no_exit unmap_nil"
  shows "ends_by no_exit (snd (Backup cs rng files unmap_nil origin skip c))"
  using ends_LoadFromFile [of files origin NewCpio] assms
  by (auto simp: Backup_def Let_def split: prod.splits sum.split if_splits)

lemma ends_extractEntry: "ends_by no_exit (snd (extractEntry absent sys p out c h))"
  unfolding extractEntry_def Let_def sys_call_def by (auto intro!: ends_intros)

lemma ends_Extract_entries: "ends_by no_exit (snd (Extract absent sys p out c h))"
proof -
  have "ends_by no_exit (snd (extract_all absent sys c ks h))" for ks h
  proof (induction ks arbitrary: h)
    case (Cons k ks)
    show ?case unfolding extract_all.simps by (intro ends_intros ends_extractEntry Cons) simp_all
  qed simp
  then show ?thesis by (simp add: Extract_def ends_extractEntry split: option.split)
qed

lemma ends_parseMode: "ends_by abrupt (parseMode mode)"
  by (simp add: parseMode_def split: sum.split)

lemma ends_Add: "ends_by no_exit (Add attrs mode path content c)"
  unfolding Add_def by (auto intro!: ends_intros split: option.split)

lemma ends_with_archive: "ends_by P (snd r) \<Longrightarrow> ends_by P (snd (with_archive s r))"
  by (simp add: with_archive_def)

lemma ends_map_result: "ends_by P (f (snd p)) \<Longrightarrow> ends_by P (snd (case p of (c, r) \<Rightarrow> (c, f r)))"
  by (cases p) simp

lemma ends_add_command: "ends_by final (snd (add_command env cmd s))"
  unfolding add_command_def errExit_def
  by (intro ends_intros ends_final [OF ends_parseMode] ends_final [OF ends_fatal_err] ends_Add) simp_all

lemma ends_rm_command: "ends_by final (snd (rm_command env cmd s))"
  unfolding rm_command_def by (intro ends_intros) simp_all

lemma ends_extract_command: "ends_by final (snd (extract_command env cmd s))"
  unfolding extract_command_def
  by (intro ends_intros) (auto split: prod.split intro!: ends_final [OF ends_fatal_err], metis ends_Extract_entries snd_conv)

lemma ends_ls_command: "ends_by final (snd (ls_command env cmd s))"
  by (simp add: ls_command_def Let_def)

lemma Test_status: "Test c \<in> {0, 1, 2}"
  by (simp add: Test_def UNSUPPORTED_CPIO_def MAGISK_PATCHED_def)

lemma ends_exec_command:
  assumes "ends_by no_exit (UnmapNil env)"
  shows "ends_by final (snd (exec_command env command s))"
  unfolding exec_command_def Let_def errExit_def
  using Test_status [of "Archive s"]
  by (intro ends_intros ends_with_archive ends_map_result ends_rm_command ends_add_command ends_extract_command
      ends_ls_command ends_final [OF ends_drop_error] ends_final [OF ends_fatal_err] ends_final [OF ends_Patch]
      ends_final [OF ends_parseMode] ends_no_exit [OF ends_Restore] ends_Backup assms) auto

lemma ends_CpioCommands:
  assumes "ends_by no_exit (UnmapNil env)"
  shows "ends_by final (snd (snd (CpioCommands env exists_file can_create argv)))"
proof -
  have all: "ends_by final (snd (exec_all env cs s))" for cs s
  proof (induction cs arbitrary: s)
    case (Cons c cs)
    show ?case unfolding exec_all.simps by (intro ends_intros ends_exec_command assms Cons) simp_all
  qed simp
  have load: "ends_by final (fatal_err (snd (load_archive env exists_file f)))" for f
    by (intro ends_final [OF ends_fatal_err]) (simp add: ends_LoadFromFile load_archive_def)
  show ?thesis
  proof (cases argv)
    case (Cons f commands)
    obtain c r where c: "load_archive env exists_file f = (c, r)"
      by (metis prod.collapse)
    obtain t q where t: "exec_all env commands (init_state c) = (t, q)" by (metis prod.collapse)
    from load [of f] all [of commands "init_state c"] show ?thesis
      by (auto simp: CpioCommands_Cons Cons c t split: sum.split)
  qed (simp add: CpioCommands_def)
qed

section \<open>The process\<close>

lemma final_status: "ends_by final r \<Longrightarrow> (\<forall>e. r \<noteq> Inl (Err e)) \<and> exit_status r \<in> {0, 1, 2, 125}"
  by (cases r rule: exit_status.cases) auto

lemma ends_split_command:
  assumes "split_command env w args = Some (w', r)"
  shows "ends_by final r"
  using assms
  by (auto simp: split_command_def Let_def Usage_def split: if_splits dest: ends_SplitImageDtb)

lemma ends_hexpatch_command: "ends_by final (snd (hexpatch_command env w args))"
  using ends_HexPatch ends_exit_bool by (auto simp: hexpatch_command_def split: prod.split) (metis snd_conv)

lemma ends_cpio_command:
  assumes "ends_by no_exit (UnmapNil (CpioBase env))"
  shows "ends_by final (snd (cpio_command env w args))"
proof -
  have "ends_by no_exit (UnmapNil (cpio_env_of env w))" using assms by (simp add: cpio_env_of_def)
  from ends_CpioCommands [OF this, of "\<lambda>f. Files w f \<noteq> None" "CanCreate w (args ! 2)" "drop 2 args"]
  show ?thesis by (auto simp: cpio_command_def split: prod.split sum.split)
qed

definition run_ends :: "(go_exit \<Rightarrow> bool) \<Rightarrow> ('s \<times> unit go) option \<Rightarrow> bool" where
  "run_ends P q \<longleftrightarrow> (case q of None \<Rightarrow> True | Some (s, r) \<Rightarrow> ends_by P r)"

lemma run_ends_if: "run_ends P x \<Longrightarrow> run_ends P y \<Longrightarrow> run_ends P (if b then x else y)"
  by simp

lemma run_ends_pure: "ends_by P (snd r) \<Longrightarrow> run_ends P (pure_run r)"
  by (simp add: run_ends_def pure_run_def)

lemma run_ends_cpio: "ends_by final (snd (cpio_command env w args)) \<Longrightarrow> run_ends final (Some (cpio_command env w args))"
  by (cases "cpio_command env w args") (simp add: run_ends_def)

lemma run_ends_split:
  "run_ends final (case split_command env w args of None \<Rightarrow> None | Some r \<Rightarrow> pure_run r)"
  by (auto simp: run_ends_def pure_run_def split: option.split dest: ends_split_command)

lemma run_ends_extract:
  "run_ends final (case ExtractBootFromPayload cs env w i n out of (w', r) \<Rightarrow> pure_run (w', exit_bool r))"
  using ends_exit_bool [OF ends_Extract] by (auto simp: run_ends_def pure_run_def split: prod.split) (metis snd_conv)

text \<open>
  C16. However a run ends, no Go error value is left unhandled: the process ends normally, with
  \<open>os.Exit\<close>, \<open>log.Fatal\<close> or a panic, and its exit status is 0, 1, 2 or 125.
\<close>

theorem Main_exit_status:
  assumes "ends_by no_exit (UnmapNil (CpioBase env))" "Main env w args = Some (s, r)"
  shows "(\<forall>e. r \<noteq> Inl (Err e)) \<and> exit_status r \<in> {0, 1, 2, 125}"
proof (rule final_status)
  have "run_ends final (Main env w args)"
    unfolding Main_def Let_def
    by (intro run_ends_if run_ends_pure run_ends_cpio run_ends_split run_ends_extract
        ends_final [OF ends_Compress] ends_final [OF ends_Decompress] ends_hexpatch_command
        ends_cpio_command assms(1))
      (auto simp: Usage_def not_impl_def sha1_command_def split: option.split)
  with assms(2) show "ends_by final r" by (simp add: run_ends_def)
qed

theorem Main_exit_status_witness:
  "ends_by no_exit (UnmapNil (CpioBase sample_main))
   \<and> (\<exists>s r. Main sample_main one_file [str ''magiskboot'', str ''unpack'', str ''boot.img''] = Some (s, r)
        \<and> exit_status r \<in> {0, 1, 2, 125})"
proof -
  have u: "ends_by no_exit (UnmapNil (CpioBase sample_main))" by (simp add: sample_main_def default_env_def)
  have "action_of [str ''magiskboot'', str ''unpack'', str ''boot.img''] = str ''unpack''" by code_simp
  then have "Main sample_main one_file [str ''magiskboot'', str ''unpack'', str ''boot.img''] = Some ((one_file, []), not_impl)"
    by (simp add: Main_def Let_def action_of_def str_simps pure_run_def)
  with u Main_exit_status [OF u this] show ?thesis by auto
qed

end
