(* ===== verification/Spec2Isabelle.thy ===== *)
theory Spec2Isabelle
  imports Go_Prelude Go_Binary Go_Strings Align Format Cpio_Codec Cpio_Path Cpio_Store Sys_Stubs
    Cpio_Backup Cpio_Restore Cpio_Cli Cpio_Edits Cpio_Undo Fstab_Patch Hex_Patch Compress_Tool
    Layout Boot_Headers Boot_Views Boot_Image Dtb_Split Payload Main_Cli Exit_Status
begin

text \<open>
  Verification development for \<^verbatim>\<open>magiskboot_go\<close>, a boot image tool written in Go. The
  program is one executable (\<^verbatim>\<open>src/cmd/main.go\<close>) that dispatches an action to one of its
  components; the components share the files of the working directory and byte buffers.

  \<^bold>\<open>The parts and their theories\<close>

  \<^item> \<open>Go_Prelude\<close>, \<open>Go_Binary\<close>, \<open>Go_Strings\<close>, \<open>Layout\<close>: the part of Go the sources use. A Go
    function is a HOL function into \<open>'a go = go_exit + 'a\<close>: a value, an \<open>error\<close> (\<open>Err\<close>), a
    run-time panic (\<open>Panic\<close>), \<open>log.Fatal\<close> (\<open>Fatal\<close>) or \<open>os.Exit\<close> (\<open>Exit\<close>). Slice and index
    expressions panic out of range. Fixed-width integers are words, \<open>int\<close> has 64 bits.
    \<open>encoding/binary\<close> is the locale \<open>codec\<close> (an encoder, a decoder, a width and their laws),
    interpreted for every integer and byte array, and a combinator \<open>layout\<close> that carries the
    laws to structures. \<open>strconv\<close>, hexadecimal and \<open>strings.Split\<close> are in \<open>Go_Strings\<close>.
  \<^item> \<open>Align\<close> (\<^verbatim>\<open>common.go\<close>): \<open>align_to\<close>, \<open>align_padding\<close> on \<open>uint64\<close> with wrap-around.
  \<^item> \<open>Format\<close> (\<^verbatim>\<open>format.go\<close>): the format codes, magic numbers, \<open>CheckFmt\<close>, names, extensions.
  \<^item> \<open>Cpio_Codec\<close>, \<open>Cpio_Path\<close>, \<open>Cpio_Store\<close>, \<open>Cpio_Backup\<close>, \<open>Cpio_Restore\<close>, \<open>Cpio_Cli\<close> (\<^verbatim>\<open>cpio.go\<close>): parser
    and writer of newc archives; \<open>norm_path\<close>; the operations on an archive in memory (a map of
    entries and a separate list of keys, as in the code); patch, backup, restore and loading;
    the command interpreter. Entries and keys can disagree: the locale \<open>entry_store\<close> states what
    the clients of the store rely on, its interpretation proves it for the code, and
    \<open>covered\<close> and \<open>tidy\<close> are the invariants, kept by rule induction over \<open>cli_reach\<close>.
  \<^item> \<open>Cpio_Edits\<close>, \<open>Cpio_Undo\<close>: whole runs of the interpreter. The locale \<open>simulation\<close> relates a machine
    to an abstract one; interpreted on the interpreter it makes the editing commands a
    refinement of operations on maps from names to entries. \<open>Cpio_Undo\<close> composes \<open>backup\<close> and
    \<open>restore\<close>.
  \<^item> \<open>Sys_Stubs\<close> (\<^verbatim>\<open>stub/\<close>): the system call stubs of both platforms over a parameter for
    \<^verbatim>\<open>golang.org/x/sys/unix\<close>, and the device files that \<open>Add\<close> and \<open>Extract\<close> handle with them.
  \<^item> \<open>Fstab_Patch\<close>, \<open>Hex_Patch\<close> (\<^verbatim>\<open>patch.go\<close>): removal of verity and encryption flags from fstab
    lines, and the in-place replacement of a byte pattern.
  \<^item> \<open>Compress_Tool\<close> (\<^verbatim>\<open>compress.go\<close>): the LZ4 legacy writer, the choice of codecs, \<open>Compress\<close> and
    \<open>Decompress\<close> with their files and names, \<open>Xz\<close>, \<open>Unxz\<close>, \<open>DecompressToFd\<close>.
  \<^item> \<open>Boot_Headers\<close>, \<open>Boot_Views\<close>, \<open>Boot_Image\<close> (\<^verbatim>\<open>bootimg.go\<close>): the sixteen header structures with
    their layouts and sizes, the \<open>Init\<close> methods of the eight header views, and the accessors, method
    by method, with Go's resolution of promoted methods; the image object \<open>BootImg\<close>, most of
    whose methods have an empty body in the source and are identities here.
  \<^item> \<open>Dtb_Split\<close> (\<^verbatim>\<open>bootimg.go\<close>): \<open>findDtbOffset\<close>, \<open>checkFmtLg\<close>, \<open>SplitImageDtb\<close>.
  \<^item> \<open>Payload\<close> (\<^verbatim>\<open>payload.go\<close>): extraction of a partition from an OTA payload; the locale
    \<open>op_sorter\<close> is the contract of \<open>sort.Slice\<close>.
  \<^item> \<open>Main_Cli\<close> (\<^verbatim>\<open>magiskboot.go\<close>): \<open>Main\<close>, which composes all of them, and the exit status.
    \<open>Exit_Status\<close>: how each function can end, up to the whole program.
  \<^item> this theory: properties of whole command lines.

  \<^bold>\<open>State\<close>

  Regular files are a map from names to contents (\<open>io\<close>), an archive is a record of a map and a
  key list (\<open>Cpio\<close>), the interpreter state adds the printed lines and the file system
  calls that \<open>extract\<close> has made (\<open>cli_state\<close>); \<open>add\<close> and \<open>backup\<close> see the regular files after these
  calls (\<open>files_now\<close>), which are also the files that \<open>Main\<close> ends with. The input and output of \<open>Payload\<close> are positions in byte
  lists (\<open>source\<close>, \<open>dest\<close>). Every operation returns the state also when it fails.

  \<^bold>\<open>What the lemmas show\<close>

  Round trips: written archives parse back to the same archive, \<open>cpio\<close> without commands
  rewrites any readable archive into one with the same content and is idempotent, LZ4 legacy
  frames decode, a compressed file decompresses to itself on the command line, \<open>backup\<close> and \<open>restore\<close>
  give back the contents of the origin (when files were added; otherwise they lose
  everything). Types: every \<open>Init\<close> keeps the header state well typed. Equivalence and refinement:
  runs of editing commands against operations on a map, and on the command line against a map
  with a list of names that determine the file written, the in-place loop of \<open>HexPatch\<close> against a
  recursive rewriting, the merge walk of \<open>Backup\<close> against set operations, the relative seeks of
  \<open>Payload\<close> against absolute offsets, \<open>CheckFmt\<close> against the table of magic numbers.
  Functional behaviour of \<open>Rm\<close>, \<open>Mv\<close>, \<open>Ls\<close>, \<open>Extract\<close>, \<open>Patch\<close>, \<open>Backup\<close>, \<open>Restore\<close>, \<open>SplitImageDtb\<close>,
  \<open>cleanup\<close>. Errors: the exact conditions under which \<open>LoadFromData\<close>, \<open>CheckFmt\<close>, \<open>patchFstab\<close> and
  \<open>HexPatch\<close> fail or panic. Termination: which inputs make \<open>findDtbOffset\<close> and \<open>checkFmtLg\<close> run
  forever, and exactly which command lines never end; how each run can end and with which exit
  status. Where the code does not do what it means to, the theorem states what it does.

  \<^bold>\<open>Bounds and loops\<close>

  The loop of \<open>LoadFromData\<close> is a total function, since every round moves the position
  forward; the loops of \<open>HexPatch\<close> and of the readers are structural. The loop of
  \<open>Compress\<close> over its own output ends at the latest when the file has the largest size that Linux
  allows. No definition uses fuel.
  The two loops that need not end are partial functions whose value \<open>None\<close> is a run without
  end. Theorems about 32-bit and 64-bit quantities state their range.

  \<^bold>\<open>Parameters\<close>

  The libraries for gzip, xz, lzma, bzip2 and lz4 (\<open>codecs\<close>), \<open>mmap\<close>, SHA-1, the decoder of the
  manifest (generated code), the order of map iteration and of \<open>sort.Slice\<close>, environment
  variables, file attributes and the outcome of system calls. A theorem that needs a
  property of one of them names it as a hypothesis, and its witness instantiates it (for the
  codecs by \<open>store_codecs\<close>, which only store).

  \<^bold>\<open>Not modelled\<close>

  The text of the usage messages and other messages on standard error; the generated
  \<^verbatim>\<open>update_metadata.pb.go\<close>; the branches for Windows outside \<^verbatim>\<open>stub/\<close>; failing writes to files
  that could be created, and files that several names share (links, other spellings of a path).
  An output that has the name of the input is modelled: \<open>os.Create\<close> empties the file that is read
  afterwards (\<open>self_reads\<close> for \<open>Compress\<close>, \<open>decoder_input\<close> for \<open>Decompress\<close>, \<open>seen_by_reader\<close> for
  \<open>Payload\<close>), or faults when it is mapped (\<open>read_mapped\<close> for \<open>SplitImageDtb\<close>).
  Unpacking, repacking, signing and verifying of boot images are not part of the program yet:
  their actions panic, and the methods \<open>BootImg.New\<close>, \<open>ParseImage\<close>, \<open>CreateHdr\<close> and \<open>Verify\<close>, \<open>Print\<close>,
  \<open>DumpHdrFile\<close> and \<open>LoadHdrFile\<close> are empty or constant, which is how they are modelled. The
  interface \<open>DynImgHdrInterface\<close> has no behaviour (and no type that implements it).
\<close>

section \<open>Properties of the whole program\<close>

text \<open>
  C9. On the command line, \<open>compress=<format>\<close> of a file followed by \<open>decompress\<close> of the result,
  both without an output name, restores the file, leaves the compressed file neither before
  nor after, and touches no other file; this holds when the library decodes what it
  encoded, the format is recognised from the encoded bytes, and the name does not end with a
  byte of the extension.
\<close>

theorem compress_then_decompress:
  assumes "NewEncoder t = Inr (LibEncoder l)" "COMPRESSED t"
    and "infile \<noteq> []" "infile \<noteq> std_name" "last infile \<notin> set (Fmt2Ext t)"
    and "Files w infile = Some content" "CanCreate w infile" "CanCreate w (infile @ Fmt2Ext t)"
    and "lib_enc (MainCodecs env) l (chunks 4096 content @ [[]]) = Some (packed, True)" "packed \<noteq> []"
    and "CheckFmt (head_buf packed) [] = Inr t" "lib_dec (MainCodecs env) l packed = Some (content, True)"
    and first: "Main env w [p, str ''compress='' @ Fmt2Name t, infile] = Some ((w1, calls1), r1)"
    and second: "Main env w1 [p, str ''decompress'', infile @ Fmt2Ext t] = Some ((w2, calls2), r2)"
  shows "r1 = Inr () \<and> r2 = Inr () \<and> Files w1 infile = None \<and> Files w2 infile = Some content
    \<and> Files w2 (infile @ Fmt2Ext t) = None
    \<and> (\<forall>f. f \<notin> {infile, infile @ Fmt2Ext t} \<longrightarrow> Files w2 f = Files w f)"
proof -
  have "action_of [p, str ''compress='' @ Fmt2Name t, infile] = str ''compress='' @ Fmt2Name t"
    by (simp add: action_of_def trim_left_def str_def)
  from Main_compress [OF _ this, of env w] first
  have 1: "Compress (MainCodecs env) w (Fmt2Name t) infile [] = (w1, r1)"
    by (simp add: pure_run_def opt_arg_def prod_eq_iff)
  have "action_of [p, str ''decompress'', infile @ Fmt2Ext t] = str ''decompress''"
    by (simp add: action_of_def trim_left_def str_def)
  from Main_actions(2) [OF _ this, of env w1] second
  have 2: "Decompress (MainCodecs env) w1 (infile @ Fmt2Ext t) [] = (w2, r2)"
    by (simp add: pure_run_def opt_arg_def prod_eq_iff)
  show ?thesis by (rule Compress_Decompress [OF assms(1-12) 1 2])
qed

text \<open>
  C35. A \<open>cpio\<close> command line with a \<open>test\<close>, \<open>exists\<close> or \<open>ls\<close> among its commands never writes the
  archive back, whatever the commands before and after it are: modifications that precede a query are
  lost. The only files that it can change are those that an \<open>extract\<close> among the commands creates
  (\<open>calls\<close> holds its file system calls); without an \<open>extract\<close> no file changes and no call is made.
\<close>

theorem cpio_query_unsaved:
  assumes "action_of (p # a # path # commands) = str ''cpio''" "\<exists>c \<in> set commands. ends c"
  shows "\<exists>fs out calls r.
      Main env w (p # a # path # commands) = Some ((w\<lparr>Files := fs, Stdout := Stdout w @ out\<rparr>, calls), r)
    \<and> (\<forall>f. (\<forall>c. CreateFile f c \<notin> set calls) \<longrightarrow> fs f = Files w f)
    \<and> ((\<forall>c \<in> set commands. \<not> extracts c) \<longrightarrow> calls = [] \<and> fs = Files w)"
proof -
  let ?C = "CpioCommands (cpio_env_of env w) (\<lambda>f. Files w f \<noteq> None) (CanCreate w path) (path # commands)"
  have "2 < length (p # a # path # commands)" by simp
  from Main_actions(3) [OF this assms(1)]
  have "Main env w (p # a # path # commands) = Some (cpio_command env w (p # a # path # commands))" .
  moreover obtain s r where s: "?C = (None, s, r)"
    using run_ends_unsaved [OF assms(2)] by (metis prod.collapse)
  ultimately have "Main env w (p # a # path # commands) =
      Some ((w\<lparr>Files := files_now env w (FsCalls s), Stdout := Stdout w @ Printed s\<rparr>, FsCalls s),
        case r of Inl e \<Rightarrow> Inl e | Inr _ \<Rightarrow> Inl (Exit 0))"
    by (simp add: cpio_command_def)
  moreover have "\<forall>f. (\<forall>c. CreateFile f c \<notin> set (FsCalls s)) \<longrightarrow> files_now env w (FsCalls s) f = Files w f"
    by (simp add: files_now_def files_after_other)
  moreover have "(\<forall>c \<in> set commands. \<not> extracts c) \<longrightarrow> FsCalls s = []"
    using FsCalls_run [of commands "cpio_env_of env w" "\<lambda>f. Files w f \<noteq> None" "CanCreate w path" path] s by simp
  ultimately show ?thesis by (metis files_now_Nil)
qed

lemma cpio_no_commands:
  assumes "action_of [p, a, path] = str ''cpio''"
    and "Files w path = Some data" "MapFile env data = Some data" "CanCreate w path"
    and "LoadFromData NewCpio data = (c, r)" "\<not> is_panic r"
  shows "Main env w [p, a, path] = Some ((w\<lparr>Files := (Files w)(path \<mapsto> dump_bytes c)\<rparr>, []), Inl (Exit 0))"
proof -
  have "MappedFiles (cpio_env_of env w) [] path = Some data"
    by (simp add: cpio_env_of_def assms(2,3))
  from run_no_commands [where exists_file = "\<lambda>f. Files w f \<noteq> None", OF _ this assms(5,6)] assms(2)
  have "CpioCommands (cpio_env_of env w) (\<lambda>f. Files w f \<noteq> None) True [path]
      = (Some (dump_bytes c), init_state c, Inr ())" by auto
  with assms(2,4) have "cpio_command env w [p, a, path] =
      ((w\<lparr>Files := (Files w)(path \<mapsto> dump_bytes c)\<rparr>, []), Inl (Exit 0))"
    by (simp add: cpio_command_def init_state_def)
  then show ?thesis using Main_actions(3) [OF _ assms(1), of env w] by simp
qed

text \<open>
  C36. \<open>cpio\<close> without commands normalises the archive file: on any file below 4 GiB on which the
  parser does not panic, it succeeds and writes a file that parses without error to exactly
  the entries and keys that the parser got out of the old one; a second run changes nothing.
\<close>

theorem cpio_normalises:
  assumes "action_of [p, a, path] = str ''cpio''"
    and "Files w path = Some data" "data \<noteq> []" "length data < 2 ^ 32" "CanCreate w path"
    and "\<And>b. b \<noteq> [] \<Longrightarrow> MapFile env b = Some b"
    and "\<not> is_panic (snd (LoadFromData NewCpio data))"
  shows "\<exists>out. let w1 = w\<lparr>Files := (Files w)(path \<mapsto> out)\<rparr> in
      Main env w [p, a, path] = Some ((w1, []), Inl (Exit 0))
    \<and> LoadFromData NewCpio out = (fst (LoadFromData NewCpio data), Inr ())
    \<and> Main env w1 [p, a, path] = Some ((w1, []), Inl (Exit 0))"
proof -
  obtain c r where c: "LoadFromData NewCpio data = (c, r)" by (cases "LoadFromData NewCpio data")
  let ?w1 = "w\<lparr>Files := (Files w)(path \<mapsto> dump_bytes c)\<rparr>"
  note again = reload [OF c assms(4)]
  have "Main env ?w1 [p, a, path] = Some ((?w1\<lparr>Files := (Files ?w1)(path \<mapsto> dump_bytes c)\<rparr>, []), Inl (Exit 0))"
    by (rule cpio_no_commands [OF assms(1) _ assms(6) _ again]) (simp_all add: dump_bytes_not_Nil assms(5))
  moreover have "Main env w [p, a, path] = Some ((?w1, []), Inl (Exit 0))"
    using assms(7) c by (intro cpio_no_commands [OF assms(1,2) assms(6) [OF assms(3)] assms(5)]) simp_all
  ultimately show ?thesis using again c by (intro exI [of _ "dump_bytes c"]) (simp add: Let_def)
qed

lemma reload_exact:
  assumes "set (Keys c) = dom (Entries c)"
    and "\<forall>k \<in> set (Keys c). plain_name k \<and> entry_fits (300000 + length (Keys c)) k (entry_at c k)"
    and "300000 + length (Keys c) < 2 ^ 32"
  shows "LoadFromData NewCpio (dump_bytes c) = (c, Inr ())"
proof -
  have "(\<lambda>k. if k \<in> set (Keys c) then Some (entry_at c k) else None) = Entries c"
    using assms(1) by (auto simp: entry_at_def fun_eq_iff split: option.split)
  then show ?thesis using parse_dumped [OF assms(2,3)] by simp
qed

text \<open>
  C6. A \<open>cpio\<close> command line of editing commands on a file that can be read, end to end: when every
  command can make its entry, the file is overwritten with the dump of the archive whose entries
  and list of names are those that the commands promise for the entries and names read, no other
  file changes and the exit status is 0; otherwise no file changes and the run ends as the first
  failing command does. When the names read were those of the entries, each once, and no command
  puts an entry over another one, the names written are those of the promised entries, each
  once; and when these have plain names and sizes that fit, the new file parses back to
  exactly the promised archive.
\<close>

theorem cpio_edits_saved:
  assumes "action_of (p # a # path # map edit_text es) = str ''cpio''"
    and "ranges (MapOrder (CpioBase env))" "list_all spoken es"
    and "Files w path = Some data" "MapFile env data = Some data" "CanCreate w path"
    and "LoadFromData NewCpio data = (c, r)" "\<not> is_panic r"
  shows "case run_all (promised_listing (cpio_env_of env w) []) es (Entries c, Keys c) of
      ((m, ns), Inr _) \<Rightarrow>
        let c' = \<lparr>Entries = m, Keys = ns\<rparr> in
        Main env w (p # a # path # map edit_text es) =
          Some ((w\<lparr>Files := (Files w)(path \<mapsto> dump_bytes c')\<rparr>, []), Inl (Exit 0))
        \<and> (distinct (Keys c) \<and> set (Keys c) = dom (Entries c) \<and> fresh_run (cpio_env_of env w) [] es (Entries c) \<longrightarrow>
            distinct ns \<and> set ns = dom m
            \<and> ((\<forall>k \<in> set ns. plain_name k \<and> entry_fits (300000 + length ns) k (entry_at c' k))
                 \<and> 300000 + length ns < 2 ^ 32 \<longrightarrow> LoadFromData NewCpio (dump_bytes c') = (c', Inr ())))
    | (l, Inl e) \<Rightarrow> Main env w (p # a # path # map edit_text es) = Some ((w, []), Inl e)"
proof -
  let ?env = "cpio_env_of env w"
  have "MappedFiles ?env [] path = Some data" by (simp add: cpio_env_of_def assms(4,5))
  moreover have "drop_error r = Inr ()"
    using load_loop_outcomes [of data 0 NewCpio c r] assms(7,8)
    by (cases r) (auto simp: LoadFromData_def load_errors_def drop_error_def)
  ultimately have l: "load_archive ?env (\<lambda>f. Files w f \<noteq> None) path = (c, Inr ())"
    using assms(4,7) by (simp add: load_archive_def LoadFromFile_def)
  have "ranges (MapOrder ?env)" using assms(2) by (simp add: cpio_env_of_def)
  moreover have "covered c" by (rule covered_load [OF l])
  moreover obtain s q where x: "exec_all ?env (map edit_text es) (init_state c) = (s, q)"
    by (cases "exec_all ?env (map edit_text es) (init_state c)")
  ultimately have m: "run_all (promised_listing ?env []) es (Entries c, Keys c) = ((Entries (Archive s), Keys (Archive s)), q)"
    using edits_listing [of ?env "init_state c" es] assms(3) by (simp add: init_state_def listing_of_def)
  have "FsCalls s = [] \<and> Printed s = []"
    using edits_quiet [OF assms(3), of ?env "init_state c", unfolded x] by (simp add: init_state_def)
  then have "cpio_command env w (p # a # path # map edit_text es) =
      (case q of
         Inl e \<Rightarrow> ((w, []), Inl e)
       | Inr _ \<Rightarrow> ((w\<lparr>Files := (Files w)(path \<mapsto> dump_bytes (Archive s))\<rparr>, []), Inl (Exit 0)))"
    using assms(4,6) l x by (simp add: cpio_command_def CpioCommands_Cons split: sum.split)
  then have main: "Main env w (p # a # path # map edit_text es) = (case q of
         Inl e \<Rightarrow> Some ((w, []), Inl e)
       | Inr _ \<Rightarrow> Some ((w\<lparr>Files := (Files w)(path \<mapsto> dump_bytes (Archive s))\<rparr>, []), Inl (Exit 0)))"
    using Main_actions(3) [OF _ assms(1), of env w] by (simp split: sum.split)
  have ex: "distinct (Keys (Archive s)) \<and> set (Keys (Archive s)) = dom (Entries (Archive s))"
    if "distinct (Keys c) \<and> set (Keys c) = dom (Entries c) \<and> fresh_run ?env [] es (Entries c)"
    using exact_listing_run [of "(Entries c, Keys c)" ?env "[]" es] that m by (simp add: exact_listing_def)
  have "\<lparr>Entries = Entries (Archive s), Keys = Keys (Archive s)\<rparr> = Archive s" by simp
  with main ex reload_exact [of "Archive s"] show ?thesis
    unfolding m by (cases q) (simp_all only: prod.case sum.case Let_def, blast+)
qed

lemma reload_two_entries: "LoadFromData NewCpio (dump_bytes two_entries) = (two_entries, Inr ())"
proof -
  have "LoadFromData NewCpio (dump_bytes two_entries) =
     (\<lparr>Entries = (\<lambda>k. if k \<in> set (Keys two_entries) then Some (entry_at two_entries k) else None),
       Keys = Keys two_entries\<rparr>, Inr ())"
    by (rule parse_dumped [OF two_entries_fit])
  moreover have "(\<lambda>k. if k \<in> set (Keys two_entries) then Some (entry_at two_entries k) else None) = Entries two_entries"
    by (rule ext) (simp add: two_entries_def entry_at_def str_def)
  ultimately show ?thesis by simp
qed

theorem compress_then_decompress_witness:
  "\<exists>w1 w2. Main sample_main one_file [str ''magiskboot'', str ''compress=xz'', str ''boot.img''] = Some ((w1, []), Inr ())
     \<and> Main sample_main w1 [str ''magiskboot'', str ''decompress'', str ''boot.img.xz''] = Some ((w2, []), Inr ())
     \<and> Files w2 (str ''boot.img'') = Some (str ''abc'')"
proof -
  have e: "str ''compress='' @ Fmt2Name XZ = str ''compress=xz''" "str ''boot.img'' @ Fmt2Ext XZ = str ''boot.img.xz''"
    "COMPRESSED XZ" "str ''boot.img'' \<noteq> []" "str ''boot.img'' \<noteq> std_name"
    "last (str ''boot.img'') \<notin> set (Fmt2Ext XZ)"
    "Files one_file (str ''boot.img'') = Some (str ''abc'')"
    "lib_enc store_codecs LibXz (chunks 4096 (str ''abc'') @ [[]]) = Some (XZ_MAGIC @ str ''abc'', True)"
    "XZ_MAGIC @ str ''abc'' \<noteq> []"
    "lib_dec store_codecs LibXz (XZ_MAGIC @ str ''abc'') = Some (str ''abc'', True)"
    by code_simp+
  have c: "CanCreate one_file f" for f by (simp add: one_file_def)
  have m: "MainCodecs sample_main = store_codecs" by (simp add: sample_main_def)
  let ?r1 = "Compress (MainCodecs sample_main) one_file (Fmt2Name XZ) (str ''boot.img'') []"
  let ?r2 = "Decompress (MainCodecs sample_main) (fst ?r1) (str ''boot.img.xz'') []"
  have "action_of [str ''magiskboot'', str ''compress='' @ Fmt2Name XZ, str ''boot.img''] = str ''compress='' @ Fmt2Name XZ"
    by (simp add: action_of_def trim_left_def str_def)
  from Main_compress [OF _ this]
  have 1: "Main sample_main one_file [str ''magiskboot'', str ''compress='' @ Fmt2Name XZ, str ''boot.img'']
      = Some ((fst ?r1, []), snd ?r1)"
    by (simp add: pure_run_def opt_arg_def)
  have "action_of [str ''magiskboot'', str ''decompress'', str ''boot.img.xz''] = str ''decompress''"
    by (simp add: action_of_def trim_left_def str_def)
  from Main_actions(2) [OF _ this]
  have 2: "Main sample_main (fst ?r1) [str ''magiskboot'', str ''decompress'', str ''boot.img'' @ Fmt2Ext XZ]
      = Some ((fst ?r2, []), snd ?r2)"
    unfolding e(2) by (simp add: pure_run_def opt_arg_def)
  have "snd ?r1 = Inr () \<and> snd ?r2 = Inr () \<and> Files (fst ?r2) (str ''boot.img'') = Some (str ''abc'')"
    using compress_then_decompress [where t = XZ and env = sample_main and l = LibXz and w = one_file
        and packed = "XZ_MAGIC @ str ''abc''", OF _ e(3-7) c c e(8) [folded m] e(9) head_buf_store_xz e(10) [folded m] 1 2]
    by simp
  with 1 2 show ?thesis unfolding e(1,2) by metis
qed

theorem cpio_query_unsaved_witness:
  "\<exists>out r. Main sample_main one_file [str ''magiskboot'', str ''cpio'', str ''new'', str ''mkdir 755 dev'', str ''ls''] =
     Some ((one_file\<lparr>Stdout := Stdout one_file @ out\<rparr>, []), r)"
proof -
  let ?cs = "[str ''mkdir 755 dev'', str ''ls'']"
  have a: "action_of (str ''magiskboot'' # str ''cpio'' # str ''new'' # ?cs) = str ''cpio''" by code_simp
  have "ends (str ''ls'')" by code_simp
  then have "\<exists>c \<in> set ?cs. ends c" by simp
  from cpio_query_unsaved [OF a this, of sample_main one_file]
  obtain fs out calls r where m: "Main sample_main one_file (str ''magiskboot'' # str ''cpio'' # str ''new'' # ?cs) =
      Some ((one_file\<lparr>Files := fs, Stdout := Stdout one_file @ out\<rparr>, calls), r)"
    and n: "(\<forall>c \<in> set ?cs. \<not> extracts c) \<longrightarrow> calls = [] \<and> fs = Files one_file" by blast
  have "\<forall>c \<in> set ?cs. \<not> extracts c" by code_simp
  with n have "calls = []" "fs = Files one_file" by simp_all
  then show ?thesis using m by auto
qed

theorem cpio_normalises_witness:
  "\<exists>out. Main sample_main (one_file\<lparr>Files := [str ''ramdisk.cpio'' \<mapsto> dump_bytes two_entries]\<rparr>)
     [str ''magiskboot'', str ''--cpio'', str ''ramdisk.cpio''] =
   Some ((one_file\<lparr>Files := [str ''ramdisk.cpio'' \<mapsto> out]\<rparr>, []), Inl (Exit 0))
   \<and> Keys (fst (LoadFromData NewCpio out)) = [str ''bin'', str ''bin/sh'']"
proof -
  let ?w = "one_file\<lparr>Files := [str ''ramdisk.cpio'' \<mapsto> dump_bytes two_entries]\<rparr>"
  have a: "action_of [str ''magiskboot'', str ''--cpio'', str ''ramdisk.cpio''] = str ''cpio''" by code_simp
  note l = reload_two_entries
  have n: "dump_bytes two_entries \<noteq> []" "length (dump_bytes two_entries) < 2 ^ 32"
    by (simp_all add: dump_bytes_not_Nil dump_bytes_def two_entries_def dump_entry_def dump_trailer_def
        length_dump_header entry_at_def align4_def trailer_name_def Let_def)
  have "\<exists>out. let w1 = ?w\<lparr>Files := (Files ?w)(str ''ramdisk.cpio'' \<mapsto> out)\<rparr> in
      Main sample_main ?w [str ''magiskboot'', str ''--cpio'', str ''ramdisk.cpio''] = Some ((w1, []), Inl (Exit 0))
    \<and> LoadFromData NewCpio out = (fst (LoadFromData NewCpio (dump_bytes two_entries)), Inr ())
    \<and> Main sample_main w1 [str ''magiskboot'', str ''--cpio'', str ''ramdisk.cpio''] = Some ((w1, []), Inl (Exit 0))"
    by (rule cpio_normalises [OF a _ n]) (simp_all add: sample_main_def one_file_def l)
  then have "\<exists>out. Main sample_main ?w [str ''magiskboot'', str ''--cpio'', str ''ramdisk.cpio''] =
        Some ((?w\<lparr>Files := (Files ?w)(str ''ramdisk.cpio'' \<mapsto> out)\<rparr>, []), Inl (Exit 0))
      \<and> Keys (fst (LoadFromData NewCpio out)) = Keys two_entries"
    unfolding Let_def l by auto
  moreover have "Keys two_entries = [str ''bin'', str ''bin/sh'']" by (simp add: two_entries_def)
  ultimately show ?thesis by simp
qed

theorem cpio_edits_saved_witness:
  "\<exists>out. Main sample_main (one_file\<lparr>Files := [str ''ramdisk.cpio'' \<mapsto> dump_bytes two_entries]\<rparr>)
     [str ''magiskboot'', str ''cpio'', str ''ramdisk.cpio'', str ''rm bin/sh'', str ''mv bin sbin''] =
   Some ((one_file\<lparr>Files := [str ''ramdisk.cpio'' \<mapsto> out]\<rparr>, []), Inl (Exit 0))
   \<and> LoadFromData NewCpio out =
      (\<lparr>Entries = [str ''sbin'' \<mapsto> entry_at two_entries (str ''bin'')], Keys = [str ''sbin'']\<rparr>, Inr ())"
proof -
  let ?w = "one_file\<lparr>Files := [str ''ramdisk.cpio'' \<mapsto> dump_bytes two_entries]\<rparr>"
  let ?env = "cpio_env_of sample_main ?w"
  let ?rm = "EditRm False (str ''bin/sh'')" and ?mv = "EditMv (str ''bin'') (str ''sbin'')"
  let ?m = "[str ''sbin'' \<mapsto> entry_at two_entries (str ''bin'')]"
  let ?c = "\<lparr>Entries = ?m, Keys = [str ''sbin'']\<rparr>"
  have t: "map edit_text [?rm, ?mv] = [str ''rm bin/sh'', str ''mv bin sbin'']" by code_simp
  have a: "action_of (str ''magiskboot'' # str ''cpio'' # str ''ramdisk.cpio'' # map edit_text [?rm, ?mv]) = str ''cpio''"
    unfolding t by code_simp
  have r: "ranges (MapOrder (CpioBase sample_main))"
    by (simp add: sample_main_def default_env_def ranges_key_order)
  have s: "list_all spoken [?rm, ?mv]" by code_simp
  have m: "rm_match (str ''bin/sh'') False (str ''bin/sh'')" "\<not> rm_match (str ''bin/sh'') False (str ''bin'')"
    "norm_path (str ''bin'') = str ''bin''" "norm_path (str ''sbin'') = str ''sbin''" by code_simp+
  have e: "Entries two_entries = [str ''bin'' \<mapsto> entry_at two_entries (str ''bin''), str ''bin/sh'' \<mapsto> entry_at two_entries (str ''bin/sh'')]"
    "Keys two_entries = [str ''bin'', str ''bin/sh'']"
    by (auto simp: two_entries_def entry_at_def)
  have left: "Entries two_entries |` {k. \<not> rm_match (str ''bin/sh'') False k} = [str ''bin'' \<mapsto> entry_at two_entries (str ''bin'')]"
    using m(1,2) by (subst e(1)) (auto simp: restrict_map_def fun_eq_iff)
  have d: "dom (Entries two_entries) = {str ''bin'', str ''bin/sh''}" by (subst e(1)) auto
  have l1: "promised_listing ?env [] ?rm (Entries two_entries, Keys two_entries)
      = (([str ''bin'' \<mapsto> entry_at two_entries (str ''bin'')], [str ''bin'']), Inr ())"
    using m(1,2) left by (simp add: promised_listing_def e(2) d)
  have l2: "promised_listing ?env [] ?mv ([str ''bin'' \<mapsto> entry_at two_entries (str ''bin'')], [str ''bin''])
      = ((?m, [str ''sbin'']), Inr ())"
    by (simp add: promised_listing_def m(3,4) bound_def)
  have run: "run_all (promised_listing ?env []) [?rm, ?mv] (Entries two_entries, Keys two_entries)
      = ((?m, [str ''sbin'']), Inr ())"
    by (simp add: l1 l2)
  have f: "distinct (Keys two_entries)" "set (Keys two_entries) = dom (Entries two_entries)"
    "fresh_run ?env [] [?rm, ?mv] (Entries two_entries)"
    using left by (simp_all add: e(2) d m(3,4) str_simps)
  have p: "(\<forall>k \<in> set [str ''sbin'']. plain_name k \<and> entry_fits (300000 + length [str ''sbin'']) k (entry_at ?c k))
      \<and> 300000 + length [str ''sbin''] < 2 ^ 32"
    by (simp_all add: plain_name_def entry_fits_def entry_at_def two_entries_def trailer_name_def str_def)
  have io: "Files ?w (str ''ramdisk.cpio'') = Some (dump_bytes two_entries)"
    "MapFile sample_main (dump_bytes two_entries) = Some (dump_bytes two_entries)"
    "CanCreate ?w (str ''ramdisk.cpio'')" "\<not> is_panic (Inr () :: unit go)"
    by (simp_all add: sample_main_def one_file_def)
  note saved = cpio_edits_saved [OF a r s io(1-3) reload_two_entries io(4), unfolded run prod.case sum.case Let_def]
  have "Main sample_main ?w (str ''magiskboot'' # str ''cpio'' # str ''ramdisk.cpio'' # map edit_text [?rm, ?mv]) =
        Some ((?w\<lparr>Files := (Files ?w)(str ''ramdisk.cpio'' \<mapsto> dump_bytes ?c)\<rparr>, []), Inl (Exit 0))
      \<and> LoadFromData NewCpio (dump_bytes ?c) = (?c, Inr ())"
    using saved f p by blast
  then show ?thesis unfolding t by (intro exI [of _ "dump_bytes ?c"]) simp
qed

end
